theory Spec2Isabelle
  imports Complex_Main
begin

section \<open>MidasBot: the decision core of \<^verbatim>\<open>MidasBot_Full.py\<close>\<close>

text \<open>
  The embedding follows the Python source function by function. Python floats are read as
  the real numbers they stand for: arithmetic is exact, there is no NaN, no infinity and no
  rounding other than the two explicit calls of \<^verbatim>\<open>round\<close> in the planner. The fee check
  and the fill simulator are given a second time with the rounding of binary64, for the
  claims that turn on the last digits. Exceptions are values of the type \<open>exn\<close>; a function
  that can raise returns \<open>exn + 'a\<close>.
\<close>

subsection \<open>Data\<close>

datatype exn = ZeroDivisionError | IndexError | OverflowError

datatype regime_tag = SCOUT | LUNCHBOX | REGULAR | AFTERBURNER | DIP

text \<open>A candle is the row \<^verbatim>\<open>[ts, o, h, l, c, v]\<close>; \<^verbatim>\<open>c[4]\<close> is the close.\<close>

record candle =
  ts :: real
  opn :: real
  high :: real
  low :: real
  close :: real
  volume :: real

subsection \<open>Indicators\<close>

text \<open>
  \<^verbatim>\<open>ema_list\<close>: the loop \<^verbatim>\<open>for v in values[1:]: s = (v - s) * k + s; ema.append(s)\<close>
  is \<open>ema_go\<close>, started at the seed \<^verbatim>\<open>values[0]\<close>; its body \<^verbatim>\<open>s = (v - s) * k + s\<close>, which
  \<^verbatim>\<open>atrp_list\<close> repeats, is \<open>ema_step\<close>.
\<close>

definition ema_step :: "real \<Rightarrow> real \<Rightarrow> real \<Rightarrow> real" where
  "ema_step k v s = (v - s) * k + s"

fun ema_go :: "real \<Rightarrow> real \<Rightarrow> real list \<Rightarrow> real list" where
  "ema_go k s [] = []"
| "ema_go k s (v # vs) = ema_step k v s # ema_go k (ema_step k v s) vs"

definition ema_list :: "real list \<Rightarrow> int \<Rightarrow> real list" where
  "ema_list values n =
     (case values of
        [] \<Rightarrow> []
      | v0 # rest \<Rightarrow>
          if n \<le> 1 then values
          else v0 # ema_go (2 / (of_int n + 1)) v0 rest)"

text \<open>
  \<^verbatim>\<open>rsi_list\<close>: the loop over \<^verbatim>\<open>range(1, n+1)\<close> accumulates the pair (gains, losses).
  The only call of the source passes \<^verbatim>\<open>n = 14\<close>; for \<^verbatim>\<open>n = 0\<close> the source would divide by
  zero, which this definition does not model.
\<close>

definition rsi_step :: "real list \<Rightarrow> nat \<Rightarrow> real \<times> real \<Rightarrow> real \<times> real" where
  "rsi_step values i acc =
     (let d = values ! i - values ! (i - 1)
      in if d \<ge> 0 then (fst acc + d, snd acc) else (fst acc, snd acc - d))"

definition rsi_list :: "real list \<Rightarrow> nat \<Rightarrow> real option" where
  "rsi_list values n =
     (if length values < n + 1 then None
      else
        let acc = fold (rsi_step values) [1 ..< n + 1] (0, 0);
            gains = fst acc;
            losses = snd acc;
            avg_gain = gains / real n;
            avg_loss = (if losses > 0 then losses / real n else 0)
        in if avg_loss = 0 then Some 100
           else Some (100 - 100 / (1 + avg_gain / avg_loss)))"

text \<open>
  \<^verbatim>\<open>atrp_list\<close>: the first loop builds the true ranges, carrying \<^verbatim>\<open>prev_close\<close>; the second
  smooths them. \<^verbatim>\<open>ohlcv[-1][4] or 1.0\<close> replaces a zero close by 1. As for \<^verbatim>\<open>rsi_list\<close>,
  the only call passes \<^verbatim>\<open>n = 14\<close>, so that \<^verbatim>\<open>trs\<close> is not empty where it is read.
\<close>

fun true_ranges :: "real \<Rightarrow> candle list \<Rightarrow> real list" where
  "true_ranges prev_close [] = []"
| "true_ranges prev_close (c # cs) =
     max (high c - low c) (max \<bar>high c - prev_close\<bar> \<bar>low c - prev_close\<bar>)
       # true_ranges (close c) cs"

definition atrp_list :: "candle list \<Rightarrow> nat \<Rightarrow> real" where
  "atrp_list ohlcv n =
     (if length ohlcv < n + 1 then 0
      else
        let trs = true_ranges (close (hd ohlcv)) (tl ohlcv);
            k = 2 / (real n + 1);
            s = fold (ema_step k) (tl trs) (hd trs);
            last_close = (if close (last ohlcv) = 0 then 1 else close (last ohlcv))
        in s / last_close)"

subsection \<open>The regime classifier\<close>

text \<open>The chain of \<^verbatim>\<open>if\<close>s at the end of \<^verbatim>\<open>_regime\<close>, first match first.\<close>

definition regime_rules :: "real \<Rightarrow> real \<Rightarrow> real \<Rightarrow> regime_tag" where
  "regime_rules slope r atrp =
     (if slope > 0.0008 \<and> r > 55 \<and> atrp > 0.003 then AFTERBURNER
      else if \<bar>slope\<bar> < 0.0004 \<and> 35 < r \<and> r < 65 \<and> atrp < 0.005 then LUNCHBOX
      else if \<bar>slope\<bar> < 0.0015 \<and> atrp \<ge> 0.003 then REGULAR
      else if r < 32 \<and> slope > - 0.002 then DIP
      else SCOUT)"

text \<open>
  \<^verbatim>\<open>_regime\<close>. The division by \<^verbatim>\<open>ema_slow + 1e-12\<close> raises when that sum is zero. The
  lists read with \<^verbatim>\<open>[-1]\<close> have at least 50 elements here.
\<close>

definition regime :: "candle list \<Rightarrow> exn + regime_tag" where
  "regime ohlcv =
     (if length ohlcv < 50 then Inr SCOUT
      else
        let closes = map close ohlcv;
            ema_fast = last (ema_list closes 12);
            ema_slow = last (ema_list closes 48)
        in if ema_slow + 1 / 10 ^ 12 = 0 then Inl ZeroDivisionError
           else
             let slope = (ema_fast - ema_slow) / (ema_slow + 1 / 10 ^ 12);
                 atrp = atrp_list ohlcv 14
             in case rsi_list closes 14 of
                  None \<Rightarrow> Inr SCOUT
                | Some r \<Rightarrow> Inr (regime_rules slope r atrp))"

subsection \<open>The bot and what it reads from the exchange\<close>

text \<open>
  \<^verbatim>\<open>self.fees\<close> is a dictionary that holds the keys \<^verbatim>\<open>"maker"\<close> and \<^verbatim>\<open>"taker"\<close> wherever
  the source builds or replaces it (the literals in \<^verbatim>\<open>__init__\<close> and \<^verbatim>\<open>_fees_update\<close>). It is
  the two values of these keys together with the map of all its other keys, so that the
  membership test of \<^verbatim>\<open>_fees_update\<close> has something to test.
\<close>

record fee_dict =
  maker :: real
  taker :: real
  other :: "string \<rightharpoonup> real"

definition has_key :: "string \<Rightarrow> fee_dict \<Rightarrow> bool" where
  "has_key k d = (k = ''maker'' \<or> k = ''taker'' \<or> other d k \<noteq> None)"

datatype side = Buy | Sell

datatype position = LONG | SHORT

type_synonym order = "side \<times> real \<times> real"

text \<open>
  One row of the CSV log, without the columns \<^verbatim>\<open>utc\<close>, \<^verbatim>\<open>exchange\<close>, \<^verbatim>\<open>symbol\<close> and
  \<^verbatim>\<open>notes\<close> (clock and text).
\<close>

record trade =
  bot_tag :: regime_tag
  pos :: position
  qty :: real
  entry_px :: real
  exit_px :: real
  gross_pct :: real
  net_pct :: real
  fee_pct_rt :: real
  pnl_usd :: real
  runtime_sec :: int

text \<open>\<^verbatim>\<open>self.last_msg\<close> is a formatted string; here it is the values it is formatted from.\<close>

datatype msg =
    NoMsg
  | PriceErr
  | Status regime_tag real real real real
  | TickErr exn

text \<open>
  The fields of \<^verbatim>\<open>self\<close>. \<open>tick_sec\<close> is \<^verbatim>\<open>self.tick\<close>; \<open>log_rows\<close> is the rows of the CSV
  file after its header, in file order.
\<close>

record bot =
  pair :: string
  paper :: bool
  budget_usd :: real
  grids :: int
  spacing :: real
  min_net :: real
  tick_sec :: int
  stop_flag :: bool
  phase :: regime_tag
  last_msg :: msg
  fees :: fee_dict
  balance_quote :: real
  log_rows :: "trade list"

text \<open>
  What the exchange client answers during one cycle. \<open>None\<close> is a call that raises; a
  dictionary is a map. In the two fee dictionaries a key holds a number or \<^verbatim>\<open>None\<close>, which
  \<^verbatim>\<open>float\<close> rejects; in the others a key that is absent or holds \<^verbatim>\<open>None\<close> is \<open>None\<close> in the
  map, as the source reads both alike. \<open>fetch_balance\<close> is the \<^verbatim>\<open>"free"\<close> dictionary of the
  answer.
\<close>

record env =
  fetch_trading_fee :: "(string \<rightharpoonup> real option) option"
  market :: "(string \<rightharpoonup> real option) option"
  fetch_balance :: "(string \<rightharpoonup> real) option"
  fetch_ticker :: "(string \<rightharpoonup> real) option"
  fetch_ohlcv :: "candle list option"

text \<open>
  \<^verbatim>\<open>__init__\<close>: the default fees, updated with the entries of \<^verbatim>\<open>manual_fees\<close> whose key
  is \<^verbatim>\<open>"maker"\<close> or \<^verbatim>\<open>"taker"\<close>. An absent or empty \<^verbatim>\<open>manual_fees\<close> is the empty map.
\<close>

definition init_fees :: "(string \<rightharpoonup> real) \<Rightarrow> fee_dict" where
  "init_fees manual_fees =
     \<lparr>maker = (case manual_fees ''maker'' of Some v \<Rightarrow> v | None \<Rightarrow> 0.0010),
      taker = (case manual_fees ''taker'' of Some v \<Rightarrow> v | None \<Rightarrow> 0.0015),
      other = Map.empty\<rparr>"

definition init :: "string \<Rightarrow> bool \<Rightarrow> real \<Rightarrow> int \<Rightarrow> real \<Rightarrow> real \<Rightarrow> int \<Rightarrow> (string \<rightharpoonup> real) \<Rightarrow> bot" where
  "init pair_arg paper_arg budget grids_arg spacing_arg min_net_arg tick_arg manual_fees =
     \<lparr>pair = pair_arg, paper = paper_arg, budget_usd = budget, grids = grids_arg,
      spacing = spacing_arg, min_net = min_net_arg, tick_sec = tick_arg, stop_flag = False,
      phase = SCOUT, last_msg = NoMsg, fees = init_fees manual_fees, balance_quote = 0.0,
      log_rows = []\<rparr>"

text \<open>\<^verbatim>\<open>d.get(k, default)\<close>\<close>

definition get_or :: "(string \<rightharpoonup> real) \<Rightarrow> string \<Rightarrow> real \<Rightarrow> real" where
  "get_or d k dflt = (case d k of Some v \<Rightarrow> v | None \<Rightarrow> dflt)"

text \<open>
  \<^verbatim>\<open>float(d.get(k, default))\<close> on a fee dictionary: \<open>None\<close> when the key holds \<^verbatim>\<open>None\<close> and
  \<^verbatim>\<open>float\<close> raises.
\<close>

definition fee_value :: "(string \<rightharpoonup> real option) \<Rightarrow> string \<Rightarrow> real \<Rightarrow> real option" where
  "fee_value d k dflt = (case d k of None \<Rightarrow> Some dflt | Some v \<Rightarrow> v)"

text \<open>
  The handler of \<^verbatim>\<open>_fees_update\<close>: the two entries are assigned one after the other from
  \<^verbatim>\<open>market\<close>, and an exception leaves what has been assigned so far.
\<close>

definition fees_from_market :: "env \<Rightarrow> bot \<Rightarrow> bot" where
  "fees_from_market e b =
     (case market e of
        None \<Rightarrow> b
      | Some mkt \<Rightarrow>
          (case fee_value mkt ''maker'' (maker (fees b)) of
             None \<Rightarrow> b
           | Some m \<Rightarrow>
               (let b1 = b\<lparr>fees := (fees b)\<lparr>maker := m\<rparr>\<rparr>
                in case fee_value mkt ''taker'' (taker (fees b1)) of
                     None \<Rightarrow> b1
                   | Some t \<Rightarrow> b1\<lparr>fees := (fees b1)\<lparr>taker := t\<rparr>\<rparr>)))"

text \<open>
  \<^verbatim>\<open>_fees_update\<close>: nothing when the key \<^verbatim>\<open>"manual"\<close> is in \<^verbatim>\<open>self.fees\<close>; otherwise a new
  dictionary from \<^verbatim>\<open>fetch_trading_fee\<close>, or, when that or a \<^verbatim>\<open>float\<close> raises, the handler.
\<close>

definition fees_update :: "env \<Rightarrow> bot \<Rightarrow> bot" where
  "fees_update e b =
     (if has_key ''manual'' (fees b) then b
      else case fetch_trading_fee e of
        None \<Rightarrow> fees_from_market e b
      | Some f \<Rightarrow>
          (case fee_value f ''maker'' (maker (fees b)) of
             None \<Rightarrow> fees_from_market e b
           | Some m \<Rightarrow>
               (case fee_value f ''taker'' (taker (fees b)) of
                  None \<Rightarrow> fees_from_market e b
                | Some t \<Rightarrow> b\<lparr>fees := \<lparr>maker = m, taker = t, other = Map.empty\<rparr>\<rparr>)))"

text \<open>\<^verbatim>\<open>str.split("/")\<close>\<close>

fun split_on :: "char \<Rightarrow> string \<Rightarrow> string list" where
  "split_on c [] = [[]]"
| "split_on c (x # xs) =
     (if x = c then [] # split_on c xs
      else case split_on c xs of
             p # ps \<Rightarrow> (x # p) # ps
           | [] \<Rightarrow> [[x]])"

text \<open>
  \<^verbatim>\<open>_balances_update\<close>: \<^verbatim>\<open>self.pair.split("/")[1]\<close> is outside the \<^verbatim>\<open>try\<close> and raises
  when the pair has no slash.
\<close>

definition balances_update :: "env \<Rightarrow> bot \<Rightarrow> exn + bot" where
  "balances_update e b =
     (case split_on (CHR ''/'') (pair b) of
        _ # quote # _ \<Rightarrow>
          Inr (b\<lparr>balance_quote :=
                   (case fetch_balance e of
                      Some free \<Rightarrow> get_or free quote 0.0
                    | None \<Rightarrow> 0.0)\<rparr>)
      | _ \<Rightarrow> Inl IndexError)"

text \<open>
  \<^verbatim>\<open>_price\<close> and \<^verbatim>\<open>_ohlcv\<close> (named \<open>bot_price\<close> and \<open>bot_ohlcv\<close>, apart from the variables
  \<^verbatim>\<open>price\<close> and \<^verbatim>\<open>ohlcv\<close> of the source): \<^verbatim>\<open>t.get("last") or t.get("close") or 0.0\<close>, where
  \<^verbatim>\<open>None\<close> and zero are false; a failed fetch leaves its message and gives zero.
\<close>

definition bot_price :: "env \<Rightarrow> bot \<Rightarrow> real \<times> bot" where
  "bot_price e b =
     (case fetch_ticker e of
        None \<Rightarrow> (0.0, b\<lparr>last_msg := PriceErr\<rparr>)
      | Some t \<Rightarrow>
          (if get_or t ''last'' 0 \<noteq> 0 then get_or t ''last'' 0
           else if get_or t ''close'' 0 \<noteq> 0 then get_or t ''close'' 0
           else 0.0, b))"

definition bot_ohlcv :: "env \<Rightarrow> candle list" where
  "bot_ohlcv e = (case fetch_ohlcv e of Some cs \<Rightarrow> cs | None \<Rightarrow> [])"

subsection \<open>Fee check and ladder planner\<close>

text \<open>\<^verbatim>\<open>_net_ok\<close> in exact arithmetic; \<open>net_ok_f64\<close> below is the same check in binary64.\<close>

definition net_ok :: "bot \<Rightarrow> real \<Rightarrow> bool" where
  "net_ok b gross_step =
     (let net = gross_step - (maker (fees b) * 2 + 0.0002)
      in net \<ge> min_net b)"

text \<open>
  \<^verbatim>\<open>round(x, ndigits)\<close> of Python: to the nearest multiple of \<open>10\<^sup>-\<^sup>n\<close>, a tie to the even one.
\<close>

definition round_half_even :: "real \<Rightarrow> int" where
  "round_half_even x =
     (let f = \<lfloor>x\<rfloor>; d = x - of_int f
      in if d < 1 / 2 then f
         else if d > 1 / 2 then f + 1
         else if even f then f else f + 1)"

definition py_round :: "real \<Rightarrow> nat \<Rightarrow> real" where
  "py_round x ndigits = of_int (round_half_even (x * 10 ^ ndigits)) / 10 ^ ndigits"

text \<open>
  The body of the loop of \<^verbatim>\<open>_plan_grid\<close> for one \<^verbatim>\<open>i\<close>: the orders it appends. The
  candidates before \<^verbatim>\<open>round\<close> are \<open>grid_candidates\<close>.
\<close>

definition grid_candidates :: "bot \<Rightarrow> real \<Rightarrow> real \<Rightarrow> nat \<Rightarrow> order list" where
  "grid_candidates b price per i =
     (let down = price * (1 - spacing b * (real i + 1));
          up = price * (1 + spacing b * (real i + 1));
          buy_qty = per / max down (1 / 10 ^ 9);
          sell_qty = per / max up (1 / 10 ^ 9);
          step_buy = (price - down) / max price (1 / 10 ^ 9);
          step_sell = (up - price) / max price (1 / 10 ^ 9)
      in (if buy_qty > 0 \<and> net_ok b step_buy then [(Buy, buy_qty, down)] else []) @
         (if sell_qty > 0 \<and> net_ok b step_sell then [(Sell, sell_qty, up)] else []))"

definition round_order :: "order \<Rightarrow> order" where
  "round_order ord = (case ord of (sd, q, p) \<Rightarrow> (sd, py_round q 8, py_round p 4))"

definition grid_level :: "bot \<Rightarrow> real \<Rightarrow> real \<Rightarrow> nat \<Rightarrow> order list" where
  "grid_level b price per i = map round_order (grid_candidates b price per i)"

definition plan_grid :: "bot \<Rightarrow> real \<Rightarrow> order list" where
  "plan_grid b price =
     (let budget = min (budget_usd b) (balance_quote b)
      in if budget \<le> 0 \<or> grids b \<le> 0 \<or> price \<le> 0 then []
         else
           let per = budget / of_int (grids b)
           in concat (map (grid_level b price per) [0 ..< nat (grids b)]))"

subsection \<open>Simulated fills\<close>

text \<open>
  \<^verbatim>\<open>_exec_paper\<close>: the row it logs, or the exception of the division by \<^verbatim>\<open>px\<close>. Any
  \<^verbatim>\<open>side\<close> other than \<^verbatim>\<open>"buy"\<close> takes the second branch; the planner only makes the two.
\<close>

definition exec_paper :: "bot \<Rightarrow> side \<Rightarrow> real \<Rightarrow> real \<Rightarrow> regime_tag \<Rightarrow> exn + trade" where
  "exec_paper b sd q px tag =
     (if sd = Buy then
        let tp = px * (1 + (if tag \<noteq> AFTERBURNER then spacing b else spacing b * 1.5))
        in if px = 0 then Inl ZeroDivisionError
           else
             let gross = (tp - px) / px;
                 net = gross - (maker (fees b) * 2 + 0.0002);
                 pnl = q * (tp - px) - q * px * maker (fees b) - q * tp * maker (fees b)
             in Inr \<lparr>bot_tag = tag, pos = LONG, qty = q, entry_px = px, exit_px = tp,
                     gross_pct = gross, net_pct = net, fee_pct_rt = maker (fees b),
                     pnl_usd = pnl, runtime_sec = tick_sec b\<rparr>
      else
        let tp = px * (1 - (if tag \<noteq> AFTERBURNER then spacing b else spacing b * 1.5))
        in if px = 0 then Inl ZeroDivisionError
           else
             let gross = (px - tp) / px;
                 net = gross - (maker (fees b) * 2 + 0.0002);
                 pnl = q * (px - tp) - q * px * maker (fees b) - q * tp * maker (fees b)
             in Inr \<lparr>bot_tag = tag, pos = SHORT, qty = q, entry_px = px, exit_px = tp,
                     gross_pct = gross, net_pct = net, fee_pct_rt = maker (fees b),
                     pnl_usd = pnl, runtime_sec = tick_sec b\<rparr>)"

subsection \<open>One cycle and the loop\<close>

text \<open>The list \<^verbatim>\<open>orders\<close> of \<^verbatim>\<open>_tick\<close> for a regime, from the planner's output.\<close>

definition orders_for :: "regime_tag \<Rightarrow> order list \<Rightarrow> order list" where
  "orders_for rg base =
     (if rg = LUNCHBOX then base
      else if rg = REGULAR then base
      else if rg = AFTERBURNER then filter (\<lambda>ord. fst ord = Sell) base
      else if rg = DIP then filter (\<lambda>ord. fst ord = Buy) base
      else [])"

text \<open>
  The loop \<^verbatim>\<open>for side, qty, px in orders[:2]\<close>: a fill is logged for each order in paper mode,
  and an exception leaves the loop with the rows logged so far.
\<close>

fun exec_orders :: "regime_tag \<Rightarrow> order list \<Rightarrow> bot \<Rightarrow> bot \<times> exn option" where
  "exec_orders tag [] b = (b, None)"
| "exec_orders tag ((sd, q, px) # os) b =
     (if paper b then
        case exec_paper b sd q px tag of
          Inl x \<Rightarrow> (b, Some x)
        | Inr row \<Rightarrow> exec_orders tag os (b\<lparr>log_rows := log_rows b @ [row]\<rparr>)
      else exec_orders tag os b)"

text \<open>
  \<^verbatim>\<open>_tick\<close>: the state it leaves and the exception it raises, if any.
\<close>

definition tick :: "env \<Rightarrow> bot \<Rightarrow> bot \<times> exn option" where
  "tick e b0 =
     (let b1 = fees_update e b0
      in case balances_update e b1 of
           Inl x \<Rightarrow> (b1, Some x)
         | Inr b2 \<Rightarrow>
             (let pr = fst (bot_price e b2);
                  b3 = snd (bot_price e b2)
              in (case regime (bot_ohlcv e) of
                    Inl x \<Rightarrow> (b3, Some x)
                  | Inr rg \<Rightarrow>
                      (let b4 = b3\<lparr>phase := rg,
                                  last_msg := Status rg pr (balance_quote b3)
                                                (maker (fees b3)) (taker (fees b3))\<rparr>
                       in if rg = SCOUT \<or> balance_quote b4 \<le> 1 / 10 ^ 6 \<or> pr \<le> 0
                          then (b4, None)
                          else exec_orders rg (take 2 (orders_for rg (plan_grid b4 pr))) b4))))"

text \<open>
  \<^verbatim>\<open>_run_loop\<close> over the cycles of a run. Each element of the list is one passage through
  the head of the \<^verbatim>\<open>while\<close>: whether \<^verbatim>\<open>stop()\<close> has been called since the last one, and what
  the exchange answers during the cycle. \<^verbatim>\<open>except Exception\<close> catches every \<open>exn\<close> of the
  cycle. \<^verbatim>\<open>time.sleep(max(5, self.tick))\<close> is outside the \<^verbatim>\<open>try\<close>; it raises \<^verbatim>\<open>OverflowError\<close>
  for more seconds than the clock type of the platform holds, \<open>sleep_max\<close> here (9223372036
  where the clock counts nanoseconds in 64 bits). The outcome says how the loop stands at
  the end of the list: still running, left by the stop flag, or left by an exception.
\<close>

datatype outcome = Running | Stopped | Died exn

fun run_loop :: "int \<Rightarrow> (bool \<times> env) list \<Rightarrow> bot \<Rightarrow> bot \<times> outcome" where
  "run_loop sleep_max [] b = (b, Running)"
| "run_loop sleep_max ((stop_called, e) # rest) b =
     (let b1 = (if stop_called then b\<lparr>stop_flag := True\<rparr> else b)
      in if stop_flag b1 then (b1, Stopped)
         else
           let b2 = (case tick e b1 of
                       (c, None) \<Rightarrow> c
                     | (c, Some x) \<Rightarrow> c\<lparr>last_msg := TickErr x\<rparr>)
           in if max 5 (tick_sec b2) \<le> sleep_max then run_loop sleep_max rest b2
              else (b2, Died OverflowError))"

subsection \<open>Fee check and fill simulator in binary64\<close>

text \<open>
  A float is a real of the form \<open>m 2\<^sup>e\<close> with \<open>|m| < 2\<^sup>5\<^sup>3\<close> and \<open>e\<close> at least -1074. \<open>fexp x\<close> is
  the exponent of the last bit in the binade of \<open>x\<close>, found by a search upwards from -1074
  (the subnormal range) to 971; \<open>fl x\<close> is \<open>x\<close> rounded to the nearest multiple of 2 to that
  exponent, a tie to the even one. It is what a float literal denotes, and what an
  arithmetic operation on floats returns for the exact result \<open>x\<close>. Results beyond the
  largest float (\<^verbatim>\<open>inf\<close>) are not modelled.
\<close>

fun binade :: "nat \<Rightarrow> real \<Rightarrow> int \<Rightarrow> int" where
  "binade 0 x e = e"
| "binade (Suc n) x e = (if \<bar>x\<bar> < 2 powi (e + 53) then e else binade n x (e + 1))"

definition fexp :: "real \<Rightarrow> int" where
  "fexp x = binade 2045 x (- 1074)"

definition fl :: "real \<Rightarrow> real" where
  "fl x = of_int (round_half_even (x / 2 powi fexp x)) * 2 powi fexp x"

text \<open>The operations \<^verbatim>\<open>+\<close>, \<^verbatim>\<open>-\<close>, \<^verbatim>\<open>*\<close> and \<^verbatim>\<open>/\<close> (by a divisor that is not zero) on floats.\<close>

definition fadd :: "real \<Rightarrow> real \<Rightarrow> real" where
  "fadd x y = fl (x + y)"

definition fsub :: "real \<Rightarrow> real \<Rightarrow> real" where
  "fsub x y = fl (x - y)"

definition fmul :: "real \<Rightarrow> real \<Rightarrow> real" where
  "fmul x y = fl (x * y)"

definition fdiv :: "real \<Rightarrow> real \<Rightarrow> real" where
  "fdiv x y = fl (x / y)"

text \<open>
  \<^verbatim>\<open>_net_ok\<close> with each operation rounded: \<^verbatim>\<open>self.fees["maker"]*2\<close>, the sum with the literal
  \<^verbatim>\<open>0.0002\<close>, the difference, and the comparison with \<^verbatim>\<open>self.min_net\<close>.
\<close>

definition net_ok_f64 :: "bot \<Rightarrow> real \<Rightarrow> bool" where
  "net_ok_f64 b gross_step =
     (let net = fsub gross_step (fadd (fmul (maker (fees b)) 2) (fl 0.0002))
      in net \<ge> min_net b)"

text \<open>
  \<^verbatim>\<open>_exec_paper\<close> with each operation rounded, in the order in which Python evaluates them;
  \<^verbatim>\<open>1.5\<close> and \<^verbatim>\<open>2\<close> are floats as they stand.
\<close>

definition exec_paper_f64 :: "bot \<Rightarrow> side \<Rightarrow> real \<Rightarrow> real \<Rightarrow> regime_tag \<Rightarrow> exn + trade" where
  "exec_paper_f64 b sd q px tag =
     (if sd = Buy then
        let tp = fmul px (fadd 1 (if tag \<noteq> AFTERBURNER then spacing b else fmul (spacing b) 1.5))
        in if px = 0 then Inl ZeroDivisionError
           else
             let gross = fdiv (fsub tp px) px;
                 net = fsub gross (fadd (fmul (maker (fees b)) 2) (fl 0.0002));
                 pnl = fsub (fsub (fmul q (fsub tp px)) (fmul (fmul q px) (maker (fees b))))
                            (fmul (fmul q tp) (maker (fees b)))
             in Inr \<lparr>bot_tag = tag, pos = LONG, qty = q, entry_px = px, exit_px = tp,
                     gross_pct = gross, net_pct = net, fee_pct_rt = maker (fees b),
                     pnl_usd = pnl, runtime_sec = tick_sec b\<rparr>
      else
        let tp = fmul px (fsub 1 (if tag \<noteq> AFTERBURNER then spacing b else fmul (spacing b) 1.5))
        in if px = 0 then Inl ZeroDivisionError
           else
             let gross = fdiv (fsub px tp) px;
                 net = fsub gross (fadd (fmul (maker (fees b)) 2) (fl 0.0002));
                 pnl = fsub (fsub (fmul q (fsub px tp)) (fmul (fmul q px) (maker (fees b))))
                            (fmul (fmul q tp) (maker (fees b)))
             in Inr \<lparr>bot_tag = tag, pos = SHORT, qty = q, entry_px = px, exit_px = tp,
                     gross_pct = gross, net_pct = net, fee_pct_rt = maker (fees b),
                     pnl_usd = pnl, runtime_sec = tick_sec b\<rparr>)"

subsection \<open>The classifier as the specification words it\<close>

text \<open>
  An ordered table of guards, the first true one winning, and the slope as a quotient whose
  denominator is the slow average plus a floor; the floor 0 is the quotient by the slow
  average itself.
\<close>

definition first_match :: "(bool \<times> regime_tag) list \<Rightarrow> regime_tag \<Rightarrow> regime_tag" where
  "first_match rules dflt = (case filter fst rules of [] \<Rightarrow> dflt | r # _ \<Rightarrow> snd r)"

definition spec_rules :: "real \<Rightarrow> real \<Rightarrow> real \<Rightarrow> regime_tag" where
  "spec_rules slope rsi vol =
     first_match
       [(slope > 0.0008 \<and> rsi > 55 \<and> vol > 0.003, AFTERBURNER),
        (\<bar>slope\<bar> < 0.0004 \<and> 35 < rsi \<and> rsi < 65 \<and> vol < 0.005, LUNCHBOX),
        (\<bar>slope\<bar> < 0.0015 \<and> vol \<ge> 0.003, REGULAR),
        (rsi < 32 \<and> slope > - 0.002, DIP)]
       SCOUT"

definition spec_regime :: "real \<Rightarrow> candle list \<Rightarrow> regime_tag" where
  "spec_regime floor_eps ohlcv =
     (if length ohlcv < 50 then SCOUT
      else
        let closes = map close ohlcv;
            fast = last (ema_list closes 12);
            slow = last (ema_list closes 48);
            slope = (fast - slow) / (slow + floor_eps)
        in case rsi_list closes 14 of
             None \<Rightarrow> SCOUT
           | Some rsi \<Rightarrow> spec_rules slope rsi (atrp_list ohlcv 14))"

subsection \<open>The ladder as the specification words it\<close>


text \<open>
  \<open>ladder_level\<close>: level \<open>i\<close> in exact arithmetic for a positive price and notional, where
  the buy and the sell have the same step \<open>level_step\<close> and positive quantities. It serves
  to evaluate the planner on concrete inputs.
\<close>

definition level_step :: "bot \<Rightarrow> real \<Rightarrow> nat \<Rightarrow> real" where
  "level_step b price i = price * (spacing b * real i) / max price (1 / 10 ^ 9)"

definition ladder_level :: "bot \<Rightarrow> real \<Rightarrow> real \<Rightarrow> nat \<Rightarrow> order list" where
  "ladder_level b price per i =
     (if net_ok b (level_step b price i)
      then [(Buy, py_round (per / max (price * (1 - spacing b * real i)) (1 / 10 ^ 9)) 8,
                  py_round (price * (1 - spacing b * real i)) 4),
            (Sell, py_round (per / max (price * (1 + spacing b * real i)) (1 / 10 ^ 9)) 8,
                   py_round (price * (1 + spacing b * real i)) 4)]
      else [])"




subsection \<open>One cycle's fills as the specification words them\<close>



subsection \<open>The loop as the specification words it\<close>

text \<open>
  \<open>recorded_cycle\<close>: one cycle at the loop boundary. An exception of the cycle is caught and
  left as the status message, on the state the cycle had reached.
\<close>

definition recorded_cycle :: "env \<Rightarrow> bot \<Rightarrow> bot" where
  "recorded_cycle e b =
     (case tick e b of (c, None) \<Rightarrow> c | (c, Some x) \<Rightarrow> c\<lparr>last_msg := TickErr x\<rparr>)"

subsection \<open>Concrete inputs\<close>

text \<open>
  Fifty candles of a pair priced near 0.000009: forty-nine flat ones that close at
  0.0000089973995, then one that closes at 0.0000090610995; every candle spans 0.0000002.
\<close>

definition flat_candle :: "real \<Rightarrow> real \<Rightarrow> candle" where
  "flat_candle c cl =
     \<lparr>ts = 0, opn = c, high = c + 1 / 10 ^ 7, low = c - 1 / 10 ^ 7, close = cl, volume = 1\<rparr>"

definition flat_then_up :: "candle list" where
  "flat_then_up =
     replicate 49 (flat_candle (89973995 / 10 ^ 13) (89973995 / 10 ^ 13))
       @ [flat_candle (89973995 / 10 ^ 13) (90610995 / 10 ^ 13)]"

text \<open>
  Bots as the command line makes them, with a balance of 100: the defaults (budget 50, 8
  levels, spacing 0.005, minimum net 0.002, fees 0.001 and 0.0015), and 2 levels with
  spacing 0.5.
\<close>

definition default_bot :: bot where
  "default_bot = (init ''BTC/USD'' True 50 8 0.005 0.002 15 Map.empty)\<lparr>balance_quote := 100\<rparr>"

definition wide_bot :: bot where
  "wide_bot = (init ''BTC/USD'' True 50 2 0.5 0.002 15 Map.empty)\<lparr>balance_quote := 100\<rparr>"

text \<open>
  Fifty equal candles at 100 that span 99 to 101, and an exchange that has no fee data,
  holds 100 USD and quotes the given last price.
\<close>

definition flat_100 :: "candle list" where
  "flat_100 = replicate 50 \<lparr>ts = 0, opn = 100, high = 101, low = 99, close = 100, volume = 1\<rparr>"

definition quiet_env :: "candle list \<Rightarrow> real \<Rightarrow> env" where
  "quiet_env series last_price =
     \<lparr>fetch_trading_fee = None, market = None,
      fetch_balance = Some [''USD'' \<mapsto> 100],
      fetch_ticker = Some [''last'' \<mapsto> last_price],
      fetch_ohlcv = Some series\<rparr>"




definition manual_bot :: bot where
  "manual_bot = init ''BTC/USD'' True 50 8 0.005 0.002 15 [''maker'' \<mapsto> 0.0005, ''taker'' \<mapsto> 0.0007]"

definition kraken_fees_env :: env where
  "kraken_fees_env =
     \<lparr>fetch_trading_fee = Some [''maker'' \<mapsto> Some 0.0016, ''taker'' \<mapsto> Some 0.0026], market = None,
      fetch_balance = Some [''USD'' \<mapsto> 100], fetch_ticker = Some [''last'' \<mapsto> 100],
      fetch_ohlcv = Some []\<rparr>"

definition no_slash_bot :: bot where
  "no_slash_bot = init ''BTCUSD'' True 50 8 0.005 0.002 15 Map.empty"

text \<open>
  The default bot as Python holds it, the fractions being the floats of their literals;
  and a bot constructed with a tick of \<open>10\<^sup>3\<^sup>0\<close> seconds.
\<close>

definition default_f64 :: bot where
  "default_f64 =
     \<lparr>pair = ''BTC/USD'', paper = True, budget_usd = 50, grids = 8, spacing = fl 0.005,
      min_net = fl 0.002, tick_sec = 15, stop_flag = False, phase = SCOUT, last_msg = NoMsg,
      fees = \<lparr>maker = fl 0.001, taker = fl 0.0015, other = Map.empty\<rparr>,
      balance_quote = 100, log_rows = []\<rparr>"

definition long_tick_bot :: bot where
  "long_tick_bot = init ''BTC/USD'' True 50 8 0.005 0.002 (10 ^ 30) Map.empty"

section \<open>Properties\<close>

subsection \<open>Evaluating the indicators\<close>

lemma ema_step_same: "ema_step k c c = c"
  by (simp add: ema_step_def)

lemma ema_go_const: "ema_go k c (replicate n c) = replicate n c"
  by (induction n) (simp_all add: ema_step_same)

lemma ema_go_append:
  "ema_go k s (xs @ ys) = ema_go k s xs @ ema_go k (last (s # ema_go k s xs)) ys"
  by (induction xs arbitrary: s) auto

lemma last_ema_flat:
  assumes "1 < n" "0 < m"
  shows "last (ema_list (replicate m c @ [c']) n) = (c' - c) * (2 / (of_int n + 1)) + c"
proof -
  obtain j where m: "m = Suc j" using assms(2) by (cases m) auto
  show ?thesis using assms(1) unfolding m
    by (simp add: ema_list_def ema_go_append ema_go_const ema_step_def)
qed

lemma true_ranges_const:
  "close x = p \<Longrightarrow>
   true_ranges p (replicate n x)
     = replicate n (max (high x - low x) (max \<bar>high x - p\<bar> \<bar>low x - p\<bar>))"
  by (induction n) auto

lemma true_ranges_append:
  "true_ranges p (xs @ ys) = true_ranges p xs @ true_ranges (last (p # map close xs)) ys"
  by (induction xs arbitrary: p) auto

lemma fold_ema_const: "fold (ema_step k) (replicate n t) t = t"
  by (induction n) (simp_all add: ema_step_same del: fold_replicate)

lemma atrp_const_ranges:
  assumes "true_ranges (close x) xs = replicate (Suc m) t" "n \<le> length xs"
  shows "atrp_list (x # xs) n
           = t / (if close (last (x # xs)) = 0 then 1 else close (last (x # xs)))"
  using assms by (simp add: atrp_list_def Let_def fold_ema_const del: fold_replicate)

lemma rsi_flat_prefix:
  assumes "\<And>i. i \<le> 14 \<Longrightarrow> values ! i = c" "15 \<le> length values"
  shows "rsi_list values 14 = Some 100"
proof -
  have "fold (rsi_step values) [1 ..< Suc n] (0, 0) = (0, 0)" if "n \<le> 14" for n
    using that
  proof (induction n)
    case 0
    then show ?case by simp
  next
    case (Suc n)
    then show ?case
      using assms(1)[of n] assms(1)[of "Suc n"] by (simp add: rsi_step_def)
  qed
  from this[of 14] have "fold (rsi_step values) [1 ..< 14 + 1] (0, 0) = (0, 0)"
    by simp
  then show ?thesis
    using assms(2) by (simp add: rsi_list_def del: upt_Suc)
qed

lemma regime_long:
  assumes "50 \<le> length ohlcv"
    and "last (ema_list (map close ohlcv) 12) = f"
    and "last (ema_list (map close ohlcv) 48) = s"
    and "s + 1 / 10 ^ 12 \<noteq> 0"
    and "rsi_list (map close ohlcv) 14 = Some r"
    and "atrp_list ohlcv 14 = a"
  shows "regime ohlcv = Inr (regime_rules ((f - s) / (s + 1 / 10 ^ 12)) r a)"
  using assms by (simp add: regime_def Let_def)

lemma regime_rules_first_match: "regime_rules slope r atrp = spec_rules slope r atrp"
  by (simp add: regime_rules_def spec_rules_def first_match_def)

lemma replicate_49: "replicate 49 x = x # replicate 48 x"
proof -
  have "(49::nat) = Suc 48" by simp
  then show ?thesis by (simp only: replicate_Suc)
qed

lemma flat_then_up_length: "length flat_then_up = 50"
  by (simp add: flat_then_up_def)

lemma flat_then_up_closes:
  "map close flat_then_up = replicate 49 (89973995 / 10 ^ 13) @ [90610995 / 10 ^ 13]"
  by (simp add: flat_then_up_def flat_candle_def)

lemma flat_then_up_fast: "last (ema_list (map close flat_then_up) 12) = 90071995 / 10 ^ 13"
  unfolding flat_then_up_closes by (subst last_ema_flat) simp_all

lemma flat_then_up_slow: "last (ema_list (map close flat_then_up) 48) = 89999995 / 10 ^ 13"
  unfolding flat_then_up_closes by (subst last_ema_flat) simp_all

lemma flat_then_up_rsi: "rsi_list (map close flat_then_up) 14 = Some 100"
proof (rule rsi_flat_prefix)
  show "15 \<le> length (map close flat_then_up)"
    by (simp add: flat_then_up_length)
  fix i :: nat
  assume "i \<le> 14"
  then show "map close flat_then_up ! i = 89973995 / 10 ^ 13"
    unfolding flat_then_up_closes by (simp add: nth_append)
qed

lemma flat_then_up_atrp: "atrp_list flat_then_up 14 = (2 / 10 ^ 7) / (90610995 / 10 ^ 13)"
proof -
  let ?x = "flat_candle (89973995 / 10 ^ 13) (89973995 / 10 ^ 13)"
  let ?y = "flat_candle (89973995 / 10 ^ 13) (90610995 / 10 ^ 13)"
  have series: "flat_then_up = ?x # (replicate 48 ?x @ [?y])"
    by (simp add: flat_then_up_def replicate_49)
  have "true_ranges (close ?x) (replicate 48 ?x) = replicate 48 (2 / 10 ^ 7)"
    by (subst true_ranges_const[OF refl]) (simp add: flat_candle_def)
  moreover have "true_ranges (last (close ?x # map close (replicate 48 ?x))) [?y] = [2 / 10 ^ 7]"
    by (simp add: flat_candle_def)
  ultimately have "true_ranges (close ?x) (replicate 48 ?x @ [?y])
                     = replicate 48 (2 / 10 ^ 7) @ [2 / 10 ^ 7]"
    by (simp only: true_ranges_append)
  then have trs: "true_ranges (close ?x) (replicate 48 ?x @ [?y]) = replicate (Suc 48) (2 / 10 ^ 7)"
    by (simp only: replicate_append_same replicate_Suc)
  have "atrp_list (?x # (replicate 48 ?x @ [?y])) 14
          = (2 / 10 ^ 7) / (if close (last (?x # (replicate 48 ?x @ [?y]))) = 0 then 1
                            else close (last (?x # (replicate 48 ?x @ [?y]))))"
    by (rule atrp_const_ranges[OF trs]) simp
  then show ?thesis
    unfolding series by (simp add: flat_candle_def)
qed

lemma flat_then_up_regime: "regime flat_then_up = Inr REGULAR"
proof -
  have "regime flat_then_up
          = Inr (regime_rules ((90071995 / 10 ^ 13 - 89999995 / 10 ^ 13) / (89999995 / 10 ^ 13 + 1 / 10 ^ 12))
                   100 ((2 / 10 ^ 7) / (90610995 / 10 ^ 13)))"
    by (rule regime_long[OF _ flat_then_up_fast flat_then_up_slow _ flat_then_up_rsi
          flat_then_up_atrp]) (simp_all add: flat_then_up_length)
  then show ?thesis
    by (simp add: regime_rules_def)
qed

subsection \<open>The regime classifier\<close>

text \<open>
  C1, as stated: the classifier is the priority table applied to the slope
  (fast - slow) / slow. This fails on \<open>flat_then_up\<close>: the source divides by
  \<^verbatim>\<open>ema_slow + 1e-12\<close>, which puts the slope below the 0.0008 of the first rule and makes the
  series REGULAR, while the quotient by the slow average is above 0.0008 and gives
  AFTERBURNER.
\<close>

theorem regime_slope_counterexample:
  "regime flat_then_up = Inr REGULAR \<and> spec_regime 0 flat_then_up = AFTERBURNER"
proof -
  have "spec_regime 0 flat_then_up
          = spec_rules ((90071995 / 10 ^ 13 - 89999995 / 10 ^ 13) / (89999995 / 10 ^ 13 + 0))
              100 ((2 / 10 ^ 7) / (90610995 / 10 ^ 13))"
    by (simp add: spec_regime_def Let_def flat_then_up_length flat_then_up_fast
          flat_then_up_slow flat_then_up_rsi flat_then_up_atrp)
  then have "spec_regime 0 flat_then_up = AFTERBURNER"
    by (simp add: spec_rules_def first_match_def)
  with flat_then_up_regime show ?thesis by simp
qed

text \<open>
  C1, amended: a series of fewer than 50 candles is SCOUT; a longer one, when the slow
  average plus \<open>10\<^sup>-\<^sup>1\<^sup>2\<close> is not zero, is classified by the priority table with first match
  winning, applied to slope = (fast - slow) / (slow + \<open>10\<^sup>-\<^sup>1\<^sup>2\<close>), to the relative strength of
  the closes over window 14 (SCOUT if absent) and to the normalized volatility over window
  14; slope 0.0005, volatility 0.01 and relative strength 45 give REGULAR.
\<close>

theorem regime_priority_table:
  assumes "length ohlcv < 50 \<or> last (ema_list (map close ohlcv) 48) + 1 / 10 ^ 12 \<noteq> 0"
  shows "regime ohlcv = Inr (spec_regime (1 / 10 ^ 12) ohlcv)
         \<and> (length ohlcv < 50 \<longrightarrow> regime ohlcv = Inr SCOUT)
         \<and> spec_rules 0.0005 45 0.01 = REGULAR"
proof -
  have "regime ohlcv = Inr (spec_regime (1 / 10 ^ 12) ohlcv)"
    using assms
    by (auto simp: regime_def spec_regime_def Let_def regime_rules_first_match
          split: option.splits)
  moreover have "length ohlcv < 50 \<longrightarrow> regime ohlcv = Inr SCOUT"
    by (simp add: regime_def)
  moreover have "spec_rules 0.0005 45 0.01 = REGULAR"
    by (simp add: spec_rules_def first_match_def)
  ultimately show ?thesis by blast
qed

theorem regime_priority_table_witness:
  "(length flat_then_up < 50 \<or> last (ema_list (map close flat_then_up) 48) + 1 / 10 ^ 12 \<noteq> 0)
   \<and> spec_regime (1 / 10 ^ 12) flat_then_up = REGULAR
   \<and> (length ([] :: candle list) < 50 \<and> regime [] = Inr SCOUT)"
proof -
  have h: "length flat_then_up < 50 \<or> last (ema_list (map close flat_then_up) 48) + 1 / 10 ^ 12 \<noteq> 0"
    by (simp add: flat_then_up_slow)
  have "length ([] :: candle list) < 50 \<or> last (ema_list (map close []) 48) + 1 / 10 ^ 12 \<noteq> 0"
    by simp
  from regime_priority_table[OF this] have short: "regime [] = Inr SCOUT"
    by (simp add: spec_regime_def)
  have "regime flat_then_up = Inr (spec_regime (1 / 10 ^ 12) flat_then_up)"
    using regime_priority_table[OF h] by blast
  then have "spec_regime (1 / 10 ^ 12) flat_then_up = REGULAR"
    by (simp add: flat_then_up_regime)
  with h short show ?thesis
    by simp
qed

text \<open>
  C10: for a series of at least 50 candles the relative strength of the closes over
  window 14 has a value, so the classifier never takes its branch for an absent relative
  strength: it raises on the division or returns what its rules give for that value.
\<close>

theorem rsi_present_when_long:
  assumes "50 \<le> length ohlcv"
  shows "\<exists>r. rsi_list (map close ohlcv) 14 = Some r
           \<and> (regime ohlcv = Inl ZeroDivisionError
              \<or> regime ohlcv
                   = Inr (regime_rules
                            ((last (ema_list (map close ohlcv) 12) - last (ema_list (map close ohlcv) 48))
                               / (last (ema_list (map close ohlcv) 48) + 1 / 10 ^ 12))
                            r (atrp_list ohlcv 14)))"
proof -
  have "rsi_list (map close ohlcv) 14 \<noteq> None"
    using assms by (simp add: rsi_list_def Let_def)
  then obtain r where r: "rsi_list (map close ohlcv) 14 = Some r"
    by blast
  then show ?thesis
    using assms by (auto simp: regime_def Let_def)
qed

theorem rsi_present_when_long_witness:
  "50 \<le> length flat_then_up
   \<and> (\<exists>r. rsi_list (map close flat_then_up) 14 = Some r
           \<and> (regime flat_then_up = Inl ZeroDivisionError
              \<or> regime flat_then_up
                   = Inr (regime_rules
                            ((last (ema_list (map close flat_then_up) 12)
                                - last (ema_list (map close flat_then_up) 48))
                               / (last (ema_list (map close flat_then_up) 48) + 1 / 10 ^ 12))
                            r (atrp_list flat_then_up 14))))"
proof -
  have h: "50 \<le> length flat_then_up"
    by (simp add: flat_then_up_length)
  from rsi_present_when_long[OF h] h show ?thesis
    by blast
qed

subsection \<open>Rounding\<close>

lemma round_half_even_near:
  assumes "of_int n - 1 / 2 < x" "x < of_int n + 1 / 2"
  shows "round_half_even x = n"
proof (cases "of_int n \<le> x")
  case True
  then have "\<lfloor>x\<rfloor> = n"
    using assms by (intro floor_unique) auto
  then show ?thesis
    using assms by (simp add: round_half_even_def Let_def)
next
  case False
  then have f: "\<lfloor>x\<rfloor> = n - 1"
    using assms by (intro floor_unique) auto
  show ?thesis
    using assms False by (simp add: round_half_even_def Let_def f)
qed

lemma py_round_near:
  assumes "(of_int n - 1 / 2) / 10 ^ d < x" "x < (of_int n + 1 / 2) / 10 ^ d"
  shows "py_round x d = of_int n / 10 ^ d"
proof -
  have "of_int n - 1 / 2 < x * 10 ^ d" "x * 10 ^ d < of_int n + 1 / 2"
    using assms by (simp_all add: field_simps)
  then show ?thesis
    by (simp add: py_round_def round_half_even_near)
qed

lemma py_round_exact: "py_round (of_int n / 10 ^ d) d = of_int n / 10 ^ d"
  by (rule py_round_near) (simp_all add: field_simps)

subsection \<open>The ladder planner\<close>

lemma grid_level_ladder:
  assumes "0 < per" "0 < price"
  shows "grid_level b price per i = ladder_level b price per (Suc i)"
proof -
  have down: "price - price * (1 - spacing b * (real i + 1)) = price * (spacing b * real (Suc i))"
    by (simp add: algebra_simps)
  have up: "price * (1 + spacing b * (real i + 1)) - price = price * (spacing b * real (Suc i))"
    by (simp add: algebra_simps)
  show ?thesis
    unfolding grid_level_def grid_candidates_def ladder_level_def level_step_def Let_def down up
    using assms(1)
    by (simp add: round_order_def zero_less_divide_iff less_max_iff_disj add.commute)
qed

lemma plan_grid_ladder:
  assumes "0 < min (budget_usd b) (balance_quote b)" "0 < grids b" "0 < price"
  shows "plan_grid b price
           = concat (map (ladder_level b price (min (budget_usd b) (balance_quote b) / of_int (grids b)))
                       [1 ..< nat (grids b) + 1])"
proof -
  let ?per = "min (budget_usd b) (balance_quote b) / of_int (grids b)"
  have per: "0 < ?per"
    using assms by simp
  have "map (grid_level b price ?per) [0 ..< n] = map (ladder_level b price ?per) [1 ..< n + 1]" for n
    by (induction n) (simp_all add: grid_level_ladder[OF per assms(3)])
  then show ?thesis
    using assms by (simp add: plan_grid_def Let_def not_le[symmetric] del: not_le)
qed

lemma level_step_plain: "1 / 10 ^ 9 \<le> price \<Longrightarrow> level_step b price i = spacing b * real i"
  by (simp add: level_step_def max_def)




lemma default_fields:
  "budget_usd default_bot = 50" "balance_quote default_bot = 100" "grids default_bot = 8"
  "spacing default_bot = 5 / 1000" "min_net default_bot = 2 / 1000" "maker (fees default_bot) = 1 / 1000"
  by (simp_all add: default_bot_def init_def init_fees_def)


lemma wide_fields:
  "budget_usd wide_bot = 50" "balance_quote wide_bot = 100" "grids wide_bot = 2"
  "spacing wide_bot = 1 / 2" "min_net wide_bot = 2 / 1000" "maker (fees wide_bot) = 1 / 1000"
  by (simp_all add: wide_bot_def init_def init_fees_def)


lemma upt_1_3: "[Suc 0 ..< 3] = [1, 2 :: nat]"
  by (simp add: upt_rec)

lemma wide_plan: "(Buy, 25000000000, 0) \<in> set (plan_grid wide_bot 100)"
proof -
  have plan: "plan_grid wide_bot 100 = concat (map (ladder_level wide_bot 100 (50 / 2)) [1, 2])"
    by (subst plan_grid_ladder) (simp_all add: wide_fields upt_1_3)
  have ok: "net_ok wide_bot (level_step wide_bot 100 2)"
    by (simp add: net_ok_def level_step_def wide_fields)
  have dn: "100 * (1 - spacing wide_bot * real 2) = of_int 0 / 10 ^ 4"
    by (simp add: wide_fields)
  have q: "50 / 2 / max (of_int 0 / 10 ^ 4) (1 / 10 ^ 9) = (of_int 2500000000000000000 / 10 ^ 8 :: real)"
    by simp
  have "ladder_level wide_bot 100 (50 / 2) 2
          = [(Buy, of_int 2500000000000000000 / 10 ^ 8, of_int 0 / 10 ^ 4),
             (Sell, py_round (50 / 2 / max (100 * (1 + spacing wide_bot * real 2)) (1 / 10 ^ 9)) 8,
                    py_round (100 * (1 + spacing wide_bot * real 2)) 4)]"
    unfolding ladder_level_def dn q py_round_exact using ok by (simp only: if_True)
  then have "(Buy, 25000000000, 0) \<in> set (ladder_level wide_bot 100 (50 / 2) 2)"
    by simp
  then show ?thesis
    unfolding plan by simp
qed










text \<open>
  C2 at budget 50, balance 100, 2 levels, spacing 0.5, price 100: the buy of level 2 has the
  level price 100 (1 - 0.5 * 2) = 0; its quantity 25 / \<open>10\<^sup>-\<^sup>9\<close> is positive, its step 1 passes
  the edge check, and the planner puts out an order with limit price 0.
\<close>

theorem plan_grid_zero_price_order:
  "(Buy, 25000000000, 0) \<in> set (plan_grid wide_bot 100)"
  by (rule wide_plan)

subsection \<open>One cycle\<close>

text \<open>What the steps of a cycle leave unchanged.\<close>

lemma fees_update_frame:
  "log_rows (fees_update e b) = log_rows b" "budget_usd (fees_update e b) = budget_usd b"
  "grids (fees_update e b) = grids b" "stop_flag (fees_update e b) = stop_flag b"
  by (simp_all add: fees_update_def fees_from_market_def Let_def split: option.splits)

lemma balances_update_frame:
  assumes "balances_update e b = Inr b'"
  shows "log_rows b' = log_rows b" "budget_usd b' = budget_usd b" "grids b' = grids b"
    "stop_flag b' = stop_flag b"
  using assms by (auto simp: balances_update_def split: list.splits)

lemma bot_price_frame:
  "log_rows (snd (bot_price e b)) = log_rows b" "budget_usd (snd (bot_price e b)) = budget_usd b"
  "grids (snd (bot_price e b)) = grids b" "stop_flag (snd (bot_price e b)) = stop_flag b"
  "balance_quote (snd (bot_price e b)) = balance_quote b"
  by (simp_all add: bot_price_def split: option.splits)

lemma exec_paper_fields:
  "exec_paper b sd q px tag = Inr row \<Longrightarrow> qty row = q \<and> entry_px row = px"
  by (auto simp: exec_paper_def Let_def split: if_splits)

lemma exec_orders_live: "\<not> paper b \<Longrightarrow> exec_orders tag os b = (b, None)"
  by (induction os) auto

text \<open>
  The loop over \<^verbatim>\<open>orders[:2]\<close> appends one row per order, in order, until an order raises.
\<close>

lemma exec_orders_rows:
  "\<exists>rows x. exec_orders tag os b = (b\<lparr>log_rows := log_rows b @ rows\<rparr>, x)
      \<and> length rows \<le> length os
      \<and> map (\<lambda>r. (qty r, entry_px r)) rows = map snd (take (length rows) os)"
proof (cases "paper b")
  case False
  then have "exec_orders tag os b = (b\<lparr>log_rows := log_rows b @ []\<rparr>, None)"
    by (simp add: exec_orders_live)
  then show ?thesis by fastforce
next
  case True
  then show ?thesis
  proof (induction os arbitrary: b)
    case Nil
    have "exec_orders tag [] b = (b\<lparr>log_rows := log_rows b @ []\<rparr>, None)" by simp
    then show ?case by fastforce
  next
    case (Cons ord os)
    obtain sd q px where ord: "ord = (sd, q, px)" by (cases ord) auto
    show ?case
    proof (cases "exec_paper b sd q px tag")
      case (Inl e)
      then have "exec_orders tag (ord # os) b = (b\<lparr>log_rows := log_rows b @ []\<rparr>, Some e)"
        using Cons.prems by (simp add: ord)
      then show ?thesis by fastforce
    next
      case (Inr row)
      let ?b = "b\<lparr>log_rows := log_rows b @ [row]\<rparr>"
      have "paper ?b" using Cons.prems by simp
      from Cons.IH[OF this] obtain rows x where
        ex: "exec_orders tag os ?b = (?b\<lparr>log_rows := log_rows ?b @ rows\<rparr>, x)"
        and len: "length rows \<le> length os"
        and flds: "map (\<lambda>r. (qty r, entry_px r)) rows = map snd (take (length rows) os)"
        by blast
      have "exec_orders tag (ord # os) b = (b\<lparr>log_rows := log_rows b @ (row # rows)\<rparr>, x)"
        using Cons.prems Inr ex by (simp add: ord)
      moreover have "length (row # rows) \<le> length (ord # os)"
        using len by simp
      moreover have "map (\<lambda>r. (qty r, entry_px r)) (row # rows)
                       = map snd (take (length (row # rows)) (ord # os))"
        using flds exec_paper_fields[OF Inr] by (simp add: ord)
      ultimately show ?thesis by blast
    qed
  qed
qed

lemma exec_orders_frame:
  "stop_flag (fst (exec_orders tag os b)) = stop_flag b"
  using exec_orders_rows[of tag os b] by auto


text \<open>What a cycle does, case by case.\<close>

lemma tick_shape:
  "(\<exists>x. tick e b = (fees_update e b, Some x))
   \<or> (\<exists>b2 x. balances_update e (fees_update e b) = Inr b2 \<and> tick e b = (snd (bot_price e b2), x))
   \<or> (\<exists>b2 rg msg. balances_update e (fees_update e b) = Inr b2
         \<and> (tick e b = (snd (bot_price e b2)\<lparr>phase := rg, last_msg := msg\<rparr>, None)
            \<or> tick e b = exec_orders rg
                 (take 2 (orders_for rg (plan_grid (snd (bot_price e b2)\<lparr>phase := rg, last_msg := msg\<rparr>)
                                            (fst (bot_price e b2)))))
                 (snd (bot_price e b2)\<lparr>phase := rg, last_msg := msg\<rparr>)))"
  by (auto simp: tick_def Let_def split: sum.splits)

lemma tick_stop_flag: "stop_flag (fst (tick e b)) = stop_flag b"
  using tick_shape[of e b]
  by (auto simp: fees_update_frame bot_price_frame balances_update_frame exec_orders_frame)













lemma split_btc_usd: "split_on (CHR ''/'') ''BTC/USD'' = [''BTC'', ''USD'']"
  by simp















subsection \<open>The fee refresh\<close>

text \<open>
  The guard of \<^verbatim>\<open>_fees_update\<close> tests for a key \<^verbatim>\<open>"manual"\<close> that neither \<^verbatim>\<open>__init__\<close> nor
  the refresh ever stores.
\<close>

lemma init_no_manual_key: "\<not> has_key ''manual'' (fees (init p pp bu g s mn t mf))"
  by (simp add: init_def init_fees_def has_key_def)

lemma fees_update_keeps_keys: "\<not> has_key ''manual'' (fees b) \<Longrightarrow> \<not> has_key ''manual'' (fees (fees_update e b))"
  by (auto simp: fees_update_def fees_from_market_def Let_def has_key_def split: option.splits)

text \<open>
  C3 at a bot constructed with the manual fees 0.0005 and 0.0007, on an exchange that reports
  0.0016 and 0.0026: the refresh replaces the manual rates with the reported ones.
\<close>

theorem manual_fees_overwritten:
  "maker (fees manual_bot) = 5 / 10000 \<and> taker (fees manual_bot) = 7 / 10000
   \<and> maker (fees (fees_update kraken_fees_env manual_bot)) = 16 / 10000
   \<and> taker (fees (fees_update kraken_fees_env manual_bot)) = 26 / 10000"
  by (simp add: manual_bot_def kraken_fees_env_def init_def init_fees_def fees_update_def fees_from_market_def fee_value_def
      has_key_def get_or_def)

subsection \<open>Simulated fills\<close>

text \<open>
  C4 at a LUNCHBOX buy of 1 at 100 on the default bot: the row has gross 0.005, the column
  \<^verbatim>\<open>fee_pct_rt\<close> 0.001 (the maker rate of one leg) and net 0.0028, where gross minus the
  column minus 0.0002 is 0.0038.
\<close>

theorem fee_column_single_leg:
  "\<exists>row. exec_paper default_bot Buy 1 100 LUNCHBOX = Inr row
     \<and> gross_pct row = 5 / 1000 \<and> fee_pct_rt row = 1 / 1000 \<and> net_pct row = 28 / 10000
     \<and> gross_pct row - fee_pct_rt row - 2 / 10000 = 38 / 10000"
  by (simp add: exec_paper_def default_fields Let_def)

subsection \<open>The loop\<close>

text \<open>A cycle leaves the stop flag and the tick interval as they are.\<close>

lemma fees_update_tick_sec: "tick_sec (fees_update e b) = tick_sec b"
  by (simp add: fees_update_def fees_from_market_def Let_def split: option.splits)

lemma balances_update_tick_sec: "balances_update e b = Inr b' \<Longrightarrow> tick_sec b' = tick_sec b"
  by (auto simp: balances_update_def split: list.splits)

lemma bot_price_tick_sec: "tick_sec (snd (bot_price e b)) = tick_sec b"
  by (simp add: bot_price_def split: option.splits)

lemma exec_orders_tick_sec: "tick_sec (fst (exec_orders tag os b)) = tick_sec b"
  using exec_orders_rows[of tag os b] by auto

lemma tick_tick_sec: "tick_sec (fst (tick e b)) = tick_sec b"
  using tick_shape[of e b]
  by (auto simp: fees_update_tick_sec bot_price_tick_sec balances_update_tick_sec exec_orders_tick_sec)

lemma recorded_cycle_frame:
  "stop_flag (recorded_cycle e b) = stop_flag b" "tick_sec (recorded_cycle e b) = tick_sec b"
  using tick_stop_flag[of e b] tick_tick_sec[of e b]
  by (auto simp: recorded_cycle_def split: prod.splits option.splits)

text \<open>One passage through the loop, and a run of them.\<close>

lemma run_loop_step:
  assumes "\<not> stop_flag b" "max 5 (tick_sec b) \<le> sleep_max"
  shows "run_loop sleep_max ((False, e) # rest) b = run_loop sleep_max rest (recorded_cycle e b)"
proof -
  have "max 5 (tick_sec (recorded_cycle e b)) \<le> sleep_max"
    using assms(2) by (simp add: recorded_cycle_frame)
  then show ?thesis
    using assms(1) by (simp add: recorded_cycle_def Let_def)
qed

lemma run_loop_unfold:
  assumes "\<not> stop_flag b"
  shows "run_loop sleep_max ((False, e) # rest) b
           = (if max 5 (tick_sec (recorded_cycle e b)) \<le> sleep_max
              then run_loop sleep_max rest (recorded_cycle e b)
              else (recorded_cycle e b, Died OverflowError))"
  using assms by (simp add: recorded_cycle_def Let_def)

lemma run_loop_sleep_dies:
  assumes "\<not> stop_flag b" "\<not> max 5 (tick_sec b) \<le> sleep_max"
  shows "run_loop sleep_max ((False, e) # rest) b = (recorded_cycle e b, Died OverflowError)"
proof -
  have "\<not> max 5 (tick_sec (recorded_cycle e b)) \<le> sleep_max"
    unfolding recorded_cycle_frame by (rule assms(2))
  then show ?thesis
    unfolding run_loop_unfold[OF assms(1)] by (simp only: if_False)
qed

lemma run_loop_fold:
  assumes "\<not> stop_flag b" "max 5 (tick_sec b) \<le> sleep_max"
  shows "run_loop sleep_max evs b
           = (if takeWhile (\<lambda>ev. \<not> fst ev) evs = evs
              then (fold recorded_cycle (map snd evs) b, Running)
              else ((fold recorded_cycle (map snd (takeWhile (\<lambda>ev. \<not> fst ev) evs)) b)
                      \<lparr>stop_flag := True\<rparr>, Stopped))"
  using assms
proof (induction evs arbitrary: b)
  case Nil
  then show ?case by simp
next
  case (Cons ev evs)
  obtain sc e where ev: "ev = (sc, e)" by (cases ev) auto
  show ?case
  proof (cases sc)
    case True
    then show ?thesis by (simp add: ev)
  next
    case False
    have st: "run_loop sleep_max (ev # evs) b = run_loop sleep_max evs (recorded_cycle e b)"
      unfolding ev using False run_loop_step[OF Cons.prems] by simp
    have "\<not> stop_flag (recorded_cycle e b)" "max 5 (tick_sec (recorded_cycle e b)) \<le> sleep_max"
      using Cons.prems by (simp_all add: recorded_cycle_frame)
    from Cons.IH[OF this] show ?thesis
      unfolding st using False by (simp add: ev)
  qed
qed

lemma no_slash_cycle:
  assumes "pair b = ''BTCUSD''" "fees b = init_fees Map.empty"
  shows "tick (quiet_env series p) b = (b, Some IndexError)"
  using assms
  by (simp add: tick_def fees_update_def fees_from_market_def has_key_def balances_update_def
      quiet_env_def init_fees_def Let_def)

text \<open>
  C9, as stated: the only way out of the loop is a stop request. For a bot constructed
  with a tick of \<open>10\<^sup>3\<^sup>0\<close> seconds the sleep after the first cycle raises \<^verbatim>\<open>OverflowError\<close>
  outside the \<^verbatim>\<open>try\<close>, and the loop ends though no stop was requested.
\<close>

theorem sleep_overflow_counterexample:
  "\<not> stop_flag long_tick_bot
   \<and> snd (run_loop 9223372036 [(False, quiet_env flat_100 100), (False, quiet_env flat_100 100)]
            long_tick_bot) = Died OverflowError"
proof -
  have "\<not> stop_flag long_tick_bot" "\<not> max 5 (tick_sec long_tick_bot) \<le> 9223372036"
    by (simp_all add: long_tick_bot_def init_def)
  from run_loop_sleep_dies[OF this] this(1) show ?thesis by simp
qed

text \<open>
  C9, amended: in a loop that has not been asked to stop and whose sleep interval
  max(5, tick) is one the platform accepts, an exception raised inside a cycle is caught
  and left as the status message, and the loop goes on with the sleep and the next cycle:
  after a run of cycles the state is that of all the cycles before the first stop request,
  run one after the other with their exceptions recorded, and the loop has ended exactly
  when there was a stop request, which sets the stop flag.
\<close>

theorem run_loop_records:
  assumes "\<not> stop_flag b" and "max 5 (tick_sec b) \<le> sleep_max"
  shows "(tick e b = (c, None) \<longrightarrow> recorded_cycle e b = c)
         \<and> (tick e b = (c, Some x) \<longrightarrow> recorded_cycle e b = c\<lparr>last_msg := TickErr x\<rparr>)
         \<and> run_loop sleep_max ((False, e) # rest) b = run_loop sleep_max rest (recorded_cycle e b)
         \<and> run_loop sleep_max evs b
             = (if takeWhile (\<lambda>ev. \<not> fst ev) evs = evs
                then (fold recorded_cycle (map snd evs) b, Running)
                else ((fold recorded_cycle (map snd (takeWhile (\<lambda>ev. \<not> fst ev) evs)) b)
                        \<lparr>stop_flag := True\<rparr>, Stopped))"
  using run_loop_fold[OF assms] run_loop_step[OF assms]
  by (simp add: recorded_cycle_def)

theorem run_loop_records_witness:
  "\<not> stop_flag no_slash_bot \<and> max 5 (tick_sec no_slash_bot) \<le> 9223372036
   \<and> tick (quiet_env flat_100 100) no_slash_bot = (no_slash_bot, Some IndexError)
   \<and> run_loop 9223372036
        [(False, quiet_env flat_100 100), (False, quiet_env flat_100 100), (True, quiet_env flat_100 100)]
        no_slash_bot
       = (no_slash_bot\<lparr>last_msg := TickErr IndexError, stop_flag := True\<rparr>, Stopped)"
proof -
  let ?e = "quiet_env flat_100 100"
  let ?r = "no_slash_bot\<lparr>last_msg := TickErr IndexError\<rparr>"
  have h: "\<not> stop_flag no_slash_bot" "max 5 (tick_sec no_slash_bot) \<le> 9223372036"
    by (simp_all add: no_slash_bot_def init_def)
  have t1: "tick ?e no_slash_bot = (no_slash_bot, Some IndexError)"
    by (rule no_slash_cycle) (simp_all add: no_slash_bot_def init_def)
  have t2: "tick ?e ?r = (?r, Some IndexError)"
    by (rule no_slash_cycle) (simp_all add: no_slash_bot_def init_def)
  have h2: "\<not> stop_flag ?r" "max 5 (tick_sec ?r) \<le> 9223372036"
    using h by simp_all
  have c1: "recorded_cycle ?e no_slash_bot = ?r"
    using run_loop_records[OF h, of ?e no_slash_bot IndexError "[]" "[]"] t1 by simp
  have c2: "recorded_cycle ?e ?r = ?r"
    using run_loop_records[OF h2, of ?e ?r IndexError "[]" "[]"] t2 by simp
  have "run_loop 9223372036 [(False, ?e), (False, ?e), (True, ?e)] no_slash_bot
          = (?r\<lparr>stop_flag := True\<rparr>, Stopped)"
    using run_loop_records[OF h, of ?e no_slash_bot IndexError "[]" "[(False, ?e), (False, ?e), (True, ?e)]"]
    by (simp add: c1 c2)
  with h t1 show ?thesis by simp
qed

subsection \<open>Rounding to binary64\<close>

text \<open>Powers of 2 with integer exponents.\<close>

lemma powi_neg: "(2::real) powi (- int k) = 1 / 2 ^ k"
  by (simp add: power_int_minus field_simps)

lemma powi_shift: "(2::real) powi (- int k + int j) = 2 ^ j / 2 ^ k"
proof -
  have "(2::real) powi (- int k + int j) = 2 powi (- int k) * 2 powi (int j)"
    by (rule power_int_add) simp
  then show ?thesis
    unfolding powi_neg by simp
qed

lemma powi_less_exp: "(2::real) powi a < 2 powi b \<Longrightarrow> a < b"
proof (rule ccontr)
  assume lt: "(2::real) powi a < 2 powi b" and "\<not> a < b"
  then have "b \<le> a" by simp
  then have "(2::real) powi b \<le> 2 powi a" by (intro power_int_increasing) simp_all
  with lt show False by simp
qed

lemma powi_split: "(2::real) powi (e + int j) = 2 ^ j * 2 powi e"
proof -
  have "(2::real) powi (e + int j) = 2 powi e * 2 powi (int j)"
    by (rule power_int_add) simp
  then show ?thesis by simp
qed

text \<open>The exponent search finds the binade.\<close>

lemma binade_range: "e0 \<le> binade n x e0 \<and> binade n x e0 \<le> e0 + int n"
proof (induction n arbitrary: e0)
  case 0
  then show ?case by simp
next
  case (Suc n)
  from Suc[of "e0 + 1"] show ?case by auto
qed

lemma binade_upper: "binade n x e0 < e0 + int n \<Longrightarrow> \<bar>x\<bar> < 2 powi (binade n x e0 + 53)"
proof (induction n arbitrary: e0)
  case 0
  then show ?case by simp
next
  case (Suc n)
  show ?case
  proof (cases "\<bar>x\<bar> < 2 powi (e0 + 53)")
    case True
    then show ?thesis by simp
  next
    case False
    with Suc.prems have "binade n x (e0 + 1) < e0 + 1 + int n" by simp
    from Suc.IH[OF this] False show ?thesis by simp
  qed
qed

lemma binade_lower: "e0 < binade n x e0 \<Longrightarrow> 2 powi (binade n x e0 + 52) \<le> \<bar>x\<bar>"
proof (induction n arbitrary: e0)
  case 0
  then show ?case by simp
next
  case (Suc n)
  from Suc.prems have nl: "\<not> \<bar>x\<bar> < 2 powi (e0 + 53)"
    by (auto split: if_splits)
  then have b: "binade (Suc n) x e0 = binade n x (e0 + 1)" by simp
  show ?case
  proof (cases "e0 + 1 < binade n x (e0 + 1)")
    case True
    from Suc.IH[OF this] show ?thesis unfolding b .
  next
    case False
    with binade_range[of "e0 + 1" n x] have r: "binade n x (e0 + 1) = e0 + 1" by simp
    have eq: "e0 + 1 + 52 = e0 + 53" by simp
    from nl show ?thesis unfolding b r eq by (simp only: not_less)
  qed
qed

lemma binade_eq:
  assumes "e0 \<le> e" "e \<le> e0 + int n" "\<bar>x\<bar> < 2 powi (e + 53)" "e0 < e \<longrightarrow> 2 powi (e + 52) \<le> \<bar>x\<bar>"
  shows "binade n x e0 = e"
proof (rule ccontr)
  let ?r = "binade n x e0"
  assume ne: "?r \<noteq> e"
  show False
  proof (cases "?r < e")
    case True
    then have "?r < e0 + int n" using assms(2) by simp
    then have "\<bar>x\<bar> < 2 powi (?r + 53)" by (rule binade_upper)
    also have "\<dots> \<le> 2 powi (e + 52)"
      using True by (intro power_int_increasing) simp_all
    finally have "\<bar>x\<bar> < 2 powi (e + 52)" .
    moreover have "e0 < e" using True binade_range[of e0 n x] by simp
    ultimately show False using assms(4) by simp
  next
    case False
    with ne have gt: "e < ?r" by simp
    then have "e0 < ?r" using assms(1) by simp
    then have "2 powi (?r + 52) \<le> \<bar>x\<bar>" by (rule binade_lower)
    moreover have "(2::real) powi (e + 53) \<le> 2 powi (?r + 52)"
      using gt by (intro power_int_increasing) simp_all
    ultimately show False using assms(3) by simp
  qed
qed

lemma fexp_eq:
  assumes "- 1074 \<le> e" "e \<le> 971" "\<bar>x\<bar> < 2 powi (e + 53)" "- 1074 < e \<longrightarrow> 2 powi (e + 52) \<le> \<bar>x\<bar>"
  shows "fexp x = e"
  unfolding fexp_def using assms by (intro binade_eq) simp_all

lemma fexp_range: "- 1074 \<le> fexp x" "fexp x \<le> 971"
  using binade_range[of "- 1074" 2045 x] by (simp_all add: fexp_def)

lemma fexp_lower: "- 1074 < fexp x \<Longrightarrow> 2 powi (fexp x + 52) \<le> \<bar>x\<bar>"
  unfolding fexp_def by (rule binade_lower)

lemma fexp_upper: "fexp x < 971 \<Longrightarrow> \<bar>x\<bar> < 2 powi (fexp x + 53)"
  unfolding fexp_def by (rule binade_upper) simp

lemma binade_minus: "binade n (- x) e = binade n x e"
  by (induction n arbitrary: e) simp_all

lemma fexp_minus: "fexp (- x) = fexp x"
  by (simp add: fexp_def binade_minus)

lemma fexp_mono:
  assumes "\<bar>x\<bar> \<le> \<bar>y\<bar>"
  shows "fexp x \<le> fexp y"
proof (rule ccontr)
  assume "\<not> fexp x \<le> fexp y"
  then have lt: "fexp y < fexp x" by simp
  then have "fexp y < 971" using fexp_range(2)[of x] by simp
  then have u: "\<bar>y\<bar> < 2 powi (fexp y + 53)" by (rule fexp_upper)
  have "- 1074 < fexp x" using lt fexp_range(1)[of y] by simp
  then have "2 powi (fexp x + 52) \<le> \<bar>x\<bar>" by (rule fexp_lower)
  also note assms
  also note u
  finally have "fexp x + 52 < fexp y + 53" by (rule powi_less_exp)
  with lt show False by simp
qed

text \<open>Rounding to an integer, a tie to the even one.\<close>

lemma round_half_even_le: "z \<le> of_int M \<Longrightarrow> round_half_even z \<le> M"
proof -
  assume z: "z \<le> of_int M"
  then have f: "\<lfloor>z\<rfloor> \<le> M" by (simp add: floor_le_iff)
  show ?thesis
  proof (cases "\<lfloor>z\<rfloor> = M")
    case True
    then have "of_int M \<le> z" by (metis of_int_floor_le)
    with z have "z = of_int M" by simp
    then show ?thesis by (simp add: round_half_even_def)
  next
    case False
    with f have "\<lfloor>z\<rfloor> + 1 \<le> M" by simp
    then show ?thesis by (simp add: round_half_even_def Let_def)
  qed
qed

lemma round_half_even_ge: "of_int M \<le> z \<Longrightarrow> M \<le> round_half_even z"
proof -
  assume "of_int M \<le> z"
  then have "M \<le> \<lfloor>z\<rfloor>" by (simp add: le_floor_iff)
  then show ?thesis by (simp add: round_half_even_def Let_def)
qed

lemma round_half_even_ge_even:
  assumes "even N"
  shows "N \<le> round_half_even z \<longleftrightarrow> of_int N - 1 / 2 \<le> z"
proof (cases "of_int N \<le> z")
  case True
  then show ?thesis using round_half_even_ge[of N z] by simp
next
  case False
  then have zN: "z < of_int N" by simp
  show ?thesis
  proof (cases "of_int N - 1 \<le> z")
    case True
    then have f: "\<lfloor>z\<rfloor> = N - 1"
      using zN by (intro floor_unique) auto
    have "odd (N - 1)" using assms by simp
    then show ?thesis
      using True zN by (auto simp: round_half_even_def Let_def f)
  next
    case False
    then have "z \<le> of_int (N - 1)" by simp
    then have "round_half_even z \<le> N - 1" by (rule round_half_even_le)
    with False show ?thesis by simp
  qed
qed

lemma round_half_even_int: "round_half_even (of_int n) = n"
  by (rule round_half_even_near) simp_all

lemma round_half_even_bounds: "\<lfloor>z\<rfloor> \<le> round_half_even z" "round_half_even z \<le> \<lfloor>z\<rfloor> + 1"
  by (simp_all add: round_half_even_def Let_def)

lemma round_half_even_mono:
  assumes "z \<le> w"
  shows "round_half_even z \<le> round_half_even w"
proof (cases "\<lfloor>z\<rfloor> < \<lfloor>w\<rfloor>")
  case True
  have "round_half_even z \<le> \<lfloor>z\<rfloor> + 1" by (rule round_half_even_bounds)
  also have "\<dots> \<le> \<lfloor>w\<rfloor>" using True by simp
  also have "\<dots> \<le> round_half_even w" by (rule round_half_even_bounds)
  finally show ?thesis .
next
  case False
  with floor_mono[OF assms] have "\<lfloor>z\<rfloor> = \<lfloor>w\<rfloor>" by simp
  then show ?thesis
    using assms by (auto simp: round_half_even_def Let_def)
qed

lemma round_half_even_minus: "round_half_even (- z) = - round_half_even z"
proof (cases "z = of_int \<lfloor>z\<rfloor>")
  case True
  then obtain n where z: "z = of_int n" ..
  have "round_half_even (of_int (- n)) = - n" by (rule round_half_even_int)
  then show ?thesis
    unfolding z by (simp add: round_half_even_int)
next
  case False
  then have c: "\<lceil>z\<rceil> = \<lfloor>z\<rfloor> + 1"
    by (simp add: ceiling_altdef)
  have f: "\<lfloor>- z\<rfloor> = - \<lfloor>z\<rfloor> - 1"
    by (simp add: floor_minus c)
  show ?thesis
    unfolding round_half_even_def Let_def f by (auto simp: algebra_simps)
qed

text \<open>Evaluating \<open>fl\<close> in a known binade.\<close>

lemma fl_scaled:
  assumes "2 ^ 52 \<le> \<bar>x\<bar> * 2 ^ k" "\<bar>x\<bar> * 2 ^ k < 2 ^ 53" "k \<le> 1074"
  shows "fl x = of_int (round_half_even (x * 2 ^ k)) / 2 ^ k"
proof -
  have a: "\<bar>x\<bar> < 2 powi (- int k + int 53)"
    unfolding powi_shift using assms(2) by (simp add: field_simps)
  have b: "2 powi (- int k + int 52) \<le> \<bar>x\<bar>"
    unfolding powi_shift using assms(1) by (simp add: field_simps)
  have "fexp x = - int k"
    using assms(3) a b by (intro fexp_eq) simp_all
  then show ?thesis
    by (simp add: fl_def powi_neg)
qed

lemma fl_near:
  assumes "2 ^ 52 \<le> \<bar>x\<bar> * 2 ^ k" "\<bar>x\<bar> * 2 ^ k < 2 ^ 53" "k \<le> 1074"
    and "of_int N - 1 / 2 < x * 2 ^ k" "x * 2 ^ k < of_int N + 1 / 2"
  shows "fl x = of_int N / 2 ^ k"
  using fl_scaled[OF assms(1-3)] round_half_even_near[OF assms(4,5)] by simp

text \<open>\<open>fl\<close> is odd and monotone, and keeps within the binade.\<close>

lemma fl_minus: "fl (- x) = - fl x"
  by (simp add: fl_def fexp_minus round_half_even_minus)

lemma fl_nonpos: "y \<le> 0 \<Longrightarrow> fl y \<le> 0"
proof -
  assume "y \<le> 0"
  then have "y / 2 powi fexp y \<le> of_int 0"
    by (simp add: divide_nonpos_pos)
  then have "round_half_even (y / 2 powi fexp y) \<le> 0"
    by (rule round_half_even_le)
  then have "of_int (round_half_even (y / 2 powi fexp y)) \<le> (0::real)"
    by simp
  then show ?thesis
    unfolding fl_def by (intro mult_nonpos_nonneg) simp_all
qed

lemma fl_nonneg: "0 \<le> y \<Longrightarrow> 0 \<le> fl y"
  using fl_nonpos[of "- y"] by (simp add: fl_minus)

lemma fl_le_binade:
  assumes "0 < y" "fexp y < 971"
  shows "fl y \<le> 2 powi (fexp y + int 53)"
proof -
  have "\<bar>y\<bar> < 2 powi (fexp y + 53)"
    using assms(2) by (rule fexp_upper)
  then have "y < 2 ^ 53 * 2 powi fexp y"
    using assms(1) powi_split[of "fexp y" 53] by simp
  then have "y / 2 powi fexp y \<le> of_int (2 ^ 53)"
    by (simp add: pos_divide_le_eq)
  then have "round_half_even (y / 2 powi fexp y) \<le> 2 ^ 53"
    by (rule round_half_even_le)
  then have "of_int (round_half_even (y / 2 powi fexp y)) \<le> (2 ^ 53 :: real)"
    by (metis of_int_le_iff of_int_numeral of_int_power)
  then have "fl y \<le> 2 ^ 53 * 2 powi fexp y"
    unfolding fl_def by (intro mult_right_mono) simp_all
  then show ?thesis
    unfolding powi_split .
qed

lemma fl_ge_binade:
  assumes "0 < y" "- 1074 < fexp y"
  shows "2 powi (fexp y + int 52) \<le> fl y"
proof -
  have "2 powi (fexp y + 52) \<le> \<bar>y\<bar>"
    using assms(2) by (rule fexp_lower)
  then have "2 ^ 52 * 2 powi fexp y \<le> y"
    using assms(1) powi_split[of "fexp y" 52] by simp
  then have "of_int (2 ^ 52) \<le> y / 2 powi fexp y"
    by (simp add: pos_le_divide_eq)
  then have "2 ^ 52 \<le> round_half_even (y / 2 powi fexp y)"
    by (rule round_half_even_ge)
  then have "(2 ^ 52 :: real) \<le> of_int (round_half_even (y / 2 powi fexp y))"
    by (metis of_int_le_iff of_int_numeral of_int_power)
  then have "2 ^ 52 * 2 powi fexp y \<le> fl y"
    unfolding fl_def by (intro mult_right_mono) simp_all
  then show ?thesis
    unfolding powi_split .
qed

lemma fl_mono_pos:
  assumes "0 < x" "x \<le> y"
  shows "fl x \<le> fl y"
proof (cases "fexp x = fexp y")
  case True
  have "x / 2 powi fexp y \<le> y / 2 powi fexp y"
    using assms(2) by (simp add: divide_right_mono)
  then have "round_half_even (x / 2 powi fexp y) \<le> round_half_even (y / 2 powi fexp y)"
    by (rule round_half_even_mono)
  then have "(of_int (round_half_even (x / 2 powi fexp y)) :: real)
               \<le> of_int (round_half_even (y / 2 powi fexp y))"
    by simp
  then show ?thesis
    unfolding fl_def True by (intro mult_right_mono) simp_all
next
  case False
  have "fexp x \<le> fexp y"
    using assms by (intro fexp_mono) simp
  with False have lt: "fexp x < fexp y" by simp
  have y: "0 < y" using assms by simp
  have "fexp x < 971" using lt fexp_range(2)[of y] by simp
  with assms(1) have "fl x \<le> 2 powi (fexp x + int 53)" by (rule fl_le_binade)
  also have "\<dots> \<le> 2 powi (fexp y + int 52)"
    using lt by (intro power_int_increasing) simp_all
  also have "\<dots> \<le> fl y"
  proof (rule fl_ge_binade[OF y])
    show "- 1074 < fexp y" using lt fexp_range(1)[of x] by simp
  qed
  finally show ?thesis .
qed

lemma fl_mono:
  assumes "x \<le> y"
  shows "fl x \<le> fl y"
proof -
  consider (pos) "0 < x" | (mixed) "x \<le> 0" "0 \<le> y" | (neg) "x \<le> 0" "y < 0"
    by linarith
  then show ?thesis
  proof cases
    case pos
    then show ?thesis using assms by (rule fl_mono_pos)
  next
    case mixed
    have "fl x \<le> 0" using mixed(1) by (rule fl_nonpos)
    also have "0 \<le> fl y" using mixed(2) by (rule fl_nonneg)
    finally show ?thesis .
  next
    case neg
    have "fl (- y) \<le> fl (- x)"
      using neg assms by (intro fl_mono_pos) simp_all
    then show ?thesis by (simp add: fl_minus)
  qed
qed

lemma fl_one: "fl 1 = 1"
proof -
  have "fl 1 = of_int 4503599627370496 / 2 ^ 52"
    by (rule fl_near) simp_all
  then show ?thesis by simp
qed

text \<open>
  Where \<open>fl\<close> reaches a float \<open>N / 2\<^sup>k\<close> with even \<open>N\<close>: from half a unit in the last place
  below it.
\<close>

lemma fl_ge_iff:
  assumes "even N" "2 ^ 52 < N" "N < 2 ^ 53" "k < 1074"
  shows "of_int N / 2 ^ k \<le> fl y \<longleftrightarrow> (of_int N - 1 / 2) / 2 ^ k \<le> y"
proof -
  have Nlo: "(2 ^ 52 :: real) < of_int N" and Nhi: "of_int N < (2 ^ 53 :: real)"
    using assms(2,3) by (metis of_int_less_iff of_int_numeral of_int_power)+
  have Nlo1: "(2 ^ 52 :: real) \<le> of_int N - 1"
  proof -
    have "2 ^ 52 \<le> N - 1" using assms(2) by simp
    then have "(of_int (2 ^ 52) :: real) \<le> of_int (N - 1)" by (simp only: of_int_le_iff)
    then show ?thesis by simp
  qed
  consider (low) "y * 2 ^ k < 2 ^ 52" | (mid) "2 ^ 52 \<le> y * 2 ^ k" "y * 2 ^ k < 2 ^ 53"
    | (high) "2 ^ 53 \<le> y * 2 ^ k"
    by linarith
  then show ?thesis
  proof cases
    case low
    have ylt: "y < 2 ^ 52 / 2 ^ k"
      using low by (simp add: pos_less_divide_eq)
    have rhs: "\<not> (of_int N - 1 / 2) / 2 ^ k \<le> y"
    proof
      assume "(of_int N - 1 / 2) / 2 ^ k \<le> y"
      then have "of_int N - 1 / 2 \<le> y * 2 ^ k" by (simp add: pos_divide_le_eq)
      with low Nlo show False by simp
    qed
    have "fl y \<le> 2 ^ 52 / 2 ^ k"
    proof (cases "y \<le> 0")
      case True
      then have "fl y \<le> 0" by (rule fl_nonpos)
      also have "(0::real) \<le> 2 ^ 52 / 2 ^ k" by simp
      finally show ?thesis .
    next
      case False
      then have pos: "0 < y" by simp
      have e: "fexp y < - int k"
      proof (cases "- 1074 < fexp y")
        case True
        then have "2 powi (fexp y + 52) \<le> \<bar>y\<bar>" by (rule fexp_lower)
        also have "\<bar>y\<bar> < 2 powi (- int k + int 52)"
          unfolding powi_shift using ylt pos by simp
        finally have "fexp y + 52 < - int k + int 52" by (rule powi_less_exp)
        then show ?thesis by simp
      next
        case False
        with fexp_range(1)[of y] have "fexp y = - 1074" by simp
        with assms(4) show ?thesis by simp
      qed
      then have "fexp y < 971" by simp
      with pos have "fl y \<le> 2 powi (fexp y + int 53)" by (rule fl_le_binade)
      also have "\<dots> \<le> 2 powi (- int k + int 52)"
        using e by (intro power_int_increasing) simp_all
      finally show ?thesis unfolding powi_shift .
    qed
    also have "\<dots> < of_int N / 2 ^ k"
      using Nlo by (simp add: divide_strict_right_mono)
    finally have "\<not> of_int N / 2 ^ k \<le> fl y" by simp
    with rhs show ?thesis by simp
  next
    case mid
    then have pos: "0 < y"
      by (metis less_le_trans zero_less_mult_pos2 zero_less_numeral zero_less_power)
    then have ab: "\<bar>y\<bar> = y" by simp
    have "fl y = of_int (round_half_even (y * 2 ^ k)) / 2 ^ k"
      using mid assms(4) by (intro fl_scaled) (simp_all add: ab)
    then have "of_int N / 2 ^ k \<le> fl y \<longleftrightarrow> N \<le> round_half_even (y * 2 ^ k)"
      by (simp add: divide_le_cancel)
    also have "\<dots> \<longleftrightarrow> of_int N - 1 / 2 \<le> y * 2 ^ k"
      using assms(1) by (rule round_half_even_ge_even)
    also have "\<dots> \<longleftrightarrow> (of_int N - 1 / 2) / 2 ^ k \<le> y"
      by (simp add: pos_divide_le_eq)
    finally show ?thesis .
  next
    case high
    have yge: "2 ^ 53 / 2 ^ k \<le> y"
      using high by (simp add: pos_divide_le_eq)
    then have pos: "0 < y"
      by (metis divide_pos_pos less_le_trans zero_less_numeral zero_less_power)
    have rhs: "(of_int N - 1 / 2) / 2 ^ k \<le> y"
    proof -
      have "of_int N - 1 / 2 \<le> y * 2 ^ k" using high Nhi by simp
      then show ?thesis by (simp add: pos_divide_le_eq)
    qed
    have e: "- int k < fexp y"
    proof (cases "fexp y < 971")
      case True
      have "2 powi (- int k + int 53) \<le> \<bar>y\<bar>"
        unfolding powi_shift using yge pos by simp
      also have "\<bar>y\<bar> < 2 powi (fexp y + 53)" using True by (rule fexp_upper)
      finally have "- int k + int 53 < fexp y + 53" by (rule powi_less_exp)
      then show ?thesis by simp
    next
      case False
      then show ?thesis by simp
    qed
    then have "- 1074 < fexp y" using assms(4) by simp
    have "of_int N / 2 ^ k < (2 ^ 53 / 2 ^ k :: real)"
      using Nhi by (simp add: divide_strict_right_mono)
    also have "\<dots> = 2 powi (- int k + int 53)"
      unfolding powi_shift ..
    also have "\<dots> \<le> 2 powi (fexp y + int 52)"
      using e by (intro power_int_increasing) simp_all
    also have "\<dots> \<le> fl y"
      using pos \<open>- 1074 < fexp y\<close> by (rule fl_ge_binade)
    finally have "of_int N / 2 ^ k \<le> fl y" by simp
    with rhs show ?thesis by simp
  qed
qed

subsection \<open>The fee check\<close>

text \<open>
  In exact arithmetic the check passes exactly from the gross step
  minNetFraction + 2 makerRate + 0.0002 on, which is 0.0042 for the default rates.
\<close>

lemma net_ok_exact:
  "net_ok b gross_step \<longleftrightarrow> gross_step - (2 * maker (fees b) + 0.0002) \<ge> min_net b"
  by (simp add: net_ok_def mult.commute)

lemma net_ok_exact_default: "net_ok default_bot gross_step \<longleftrightarrow> gross_step \<ge> 0.0042"
  by (auto simp: net_ok_def default_fields)

text \<open>The floats of the literals, and the cost of two legs and the slippage.\<close>

lemma lit_001: "fl 0.001 = of_int 4611686018427388 / 2 ^ 62"
  by (rule fl_near) simp_all

lemma lit_002: "fl 0.002 = of_int 4611686018427388 / 2 ^ 61"
  by (rule fl_near) simp_all

lemma lit_0002: "fl 0.0002 = of_int 7378697629483821 / 2 ^ 65"
  by (rule fl_near) simp_all

lemma lit_0042: "fl 0.0042 = of_int 4842270319348757 / 2 ^ 60"
  by (rule fl_near) simp_all

lemma lit_0041999: "fl 0.0041999 = of_int 4842155027198297 / 2 ^ 60"
  by (rule fl_near) simp_all

lemma lit_0043: "fl 0.0043 = of_int 4957562469809442 / 2 ^ 60"
  by (rule fl_near) simp_all

lemma lit_005: "fl 0.005 = of_int 5764607523034235 / 2 ^ 60"
  by (rule fl_near) simp_all

lemma lit_100: "fl 100 = 100"
proof -
  have "fl 100 = of_int 7036874417766400 / 2 ^ 46"
    by (rule fl_near) simp_all
  then show ?thesis by simp
qed

lemma two_legs: "fl (of_int 4611686018427388 / 2 ^ 62 * 2) = of_int 4611686018427388 / 2 ^ 61"
  by (rule fl_near) simp_all

lemma cost_0022:
  "fl (of_int 4611686018427388 / 2 ^ 61 + of_int 7378697629483821 / 2 ^ 65)
     = of_int 5072854620270127 / 2 ^ 61"
  by (rule fl_near) simp_all

lemma cost_f64: "fadd (fmul (fl 0.001) 2) (fl 0.0002) = of_int 5072854620270127 / 2 ^ 61"
  unfolding fadd_def fmul_def lit_001 two_legs lit_0002 cost_0022 ..

lemma default_f64_fields:
  "maker (fees default_f64) = fl 0.001" "min_net default_f64 = fl 0.002"
  "spacing default_f64 = fl 0.005"
  by (simp_all add: default_f64_def)

lemma net_f64_at_0042:
  "fsub (fl 0.0042) (fadd (fmul (fl 0.001) 2) (fl 0.0002)) = of_int 4611686018427387 / 2 ^ 61"
  unfolding cost_f64 lit_0042 fsub_def by (rule fl_near) simp_all

lemma net_ok_f64_iff:
  "net_ok_f64 default_f64 g \<longleftrightarrow> 19369081277395029 / 2 ^ 62 \<le> g"
proof -
  have "net_ok_f64 default_f64 g
          \<longleftrightarrow> of_int 4611686018427388 / 2 ^ 61 \<le> fl (g - of_int 5072854620270127 / 2 ^ 61)"
    unfolding net_ok_f64_def Let_def default_f64_fields cost_f64 lit_002 fsub_def ..
  also have "\<dots> \<longleftrightarrow> (of_int 4611686018427388 - 1 / 2) / 2 ^ 61 \<le> g - of_int 5072854620270127 / 2 ^ 61"
    by (rule fl_ge_iff) simp_all
  also have "\<dots> \<longleftrightarrow> 19369081277395029 / 2 ^ 62 \<le> g"
    by simp
  finally show ?thesis .
qed

text \<open>
  C6, as stated: with makerRate 0.001 and minNetFraction 0.002 the gross step 0.0042 passes.
  In binary64 the float 0.0042 minus the float sum 0.001 * 2 + 0.0002 is
  4611686018427387 / \<open>2\<^sup>6\<^sup>1\<close> (0.0019999999999999996), one unit in the last place below the
  float 0.002, and the check fails.
\<close>

theorem net_ok_boundary_counterexample:
  "fsub (fl 0.0042) (fadd (fmul (fl 0.001) 2) (fl 0.0002)) = 4611686018427387 / 2 ^ 61
   \<and> fl 0.002 = 4611686018427388 / 2 ^ 61
   \<and> \<not> net_ok_f64 default_f64 (fl 0.0042)"
proof -
  have "\<not> net_ok_f64 default_f64 (fl 0.0042)"
    unfolding net_ok_f64_iff lit_0042 by simp
  then show ?thesis
    using net_f64_at_0042 lit_002 by simp
qed

text \<open>
  C6, amended: the check returns true exactly when grossStep - (2 makerRate + 0.0002),
  each operation rounded to binary64, is at least minNetFraction. With the floats 0.001 and
  0.002 for makerRate and minNetFraction that is grossStep at least
  19369081277395029 / \<open>2\<^sup>6\<^sup>2\<close>, just above 0.0042: a float gross step \<open>M / 2\<^sup>6\<^sup>0\<close> passes exactly
  when it is greater than the float 0.0042, so that 0.0042 and 0.0041999 fail and 0.0043
  passes.
\<close>

theorem net_ok_f64_threshold:
  "(net_ok_f64 b g \<longleftrightarrow> fsub g (fadd (fmul (maker (fees b)) 2) (fl 0.0002)) \<ge> min_net b)
   \<and> (net_ok_f64 default_f64 g \<longleftrightarrow> g \<ge> 19369081277395029 / 2 ^ 62)
   \<and> (net_ok_f64 default_f64 (of_int M / 2 ^ 60) \<longleftrightarrow> M > 4842270319348757)
   \<and> fl 0.0042 = 4842270319348757 / 2 ^ 60
   \<and> \<not> net_ok_f64 default_f64 (fl 0.0041999)
   \<and> net_ok_f64 default_f64 (fl 0.0043)"
proof -
  have a: "net_ok_f64 b g \<longleftrightarrow> fsub g (fadd (fmul (maker (fees b)) 2) (fl 0.0002)) \<ge> min_net b"
    by (simp add: net_ok_f64_def)
  have b: "net_ok_f64 default_f64 (of_int M / 2 ^ 60) \<longleftrightarrow> M > 4842270319348757"
  proof -
    have "19369081277395029 / 2 ^ 62 \<le> (of_int M / 2 ^ 60 :: real)
            \<longleftrightarrow> (of_int 19369081277395029 :: real) \<le> of_int (4 * M)"
      by (simp add: field_simps)
    also have "\<dots> \<longleftrightarrow> 19369081277395029 \<le> 4 * M"
      by (simp only: of_int_le_iff)
    also have "\<dots> \<longleftrightarrow> M > 4842270319348757"
      by presburger
    finally show ?thesis
      unfolding net_ok_f64_iff .
  qed
  have c: "\<not> net_ok_f64 default_f64 (fl 0.0041999)"
    unfolding net_ok_f64_iff lit_0041999 by simp
  have d: "net_ok_f64 default_f64 (fl 0.0043)"
    unfolding net_ok_f64_iff lit_0043 by simp
  from a b c d net_ok_f64_iff[of g] lit_0042 show ?thesis
    by simp
qed

subsection \<open>Simulated fills in binary64\<close>

lemma one_plus_005: "fadd 1 (of_int 5764607523034235 / 2 ^ 60) = of_int 4526117625507348 / 2 ^ 52"
  unfolding fadd_def by (rule fl_near) simp_all

lemma exit_100: "fmul 100 (of_int 4526117625507348 / 2 ^ 52) = of_int 7072058789855231 / 2 ^ 46"
  unfolding fmul_def by (rule fl_near) simp_all

lemma move_100: "fsub (of_int 7072058789855231 / 2 ^ 46) 100 = of_int 9007199254740736 / 2 ^ 54"
  unfolding fsub_def by (rule fl_near) simp_all

lemma gross_100: "fdiv (of_int 9007199254740736 / 2 ^ 54) 100 = of_int 5764607523034071 / 2 ^ 60"
  unfolding fdiv_def by (rule fl_near) simp_all

lemma net_100:
  "fsub (of_int 5764607523034071 / 2 ^ 60) (of_int 5072854620270127 / 2 ^ 61)
     = of_int 6456360425798015 / 2 ^ 61"
  unfolding fsub_def by (rule fl_near) simp_all

lemma fill_example:
  "\<exists>row. exec_paper_f64 default_f64 Buy q 100 LUNCHBOX = Inr row
     \<and> exit_px row = 7072058789855231 / 2 ^ 46
     \<and> gross_pct row = 5764607523034071 / 2 ^ 60
     \<and> net_pct row = 6456360425798015 / 2 ^ 61"
proof -
  have "\<exists>row. exec_paper_f64 default_f64 Buy q 100 LUNCHBOX = Inr row
          \<and> exit_px row = fmul 100 (fadd 1 (spacing default_f64))
          \<and> gross_pct row = fdiv (fsub (fmul 100 (fadd 1 (spacing default_f64))) 100) 100
          \<and> net_pct row = fsub (fdiv (fsub (fmul 100 (fadd 1 (spacing default_f64))) 100) 100)
                             (fadd (fmul (maker (fees default_f64)) 2) (fl 0.0002))"
    by (simp add: exec_paper_f64_def Let_def)
  then show ?thesis
    unfolding default_f64_fields lit_005 one_plus_005 exit_100 move_100 gross_100 cost_f64 net_100
    by simp
qed

lemma fill_at_minus_50:
  "\<exists>row. exec_paper_f64 (default_f64\<lparr>spacing := 1.5\<rparr>) Buy q (- 50) REGULAR = Inr row
     \<and> exit_px row = - 125 \<and> gross_pct row = 3 / 2"
proof -
  have sp: "spacing (default_f64\<lparr>spacing := 1.5\<rparr>) = 1.5"
    by simp
  have a: "fadd 1 1.5 = of_int 5629499534213120 / 2 ^ 51"
    unfolding fadd_def by (rule fl_near) simp_all
  have b: "fmul (- 50) (of_int 5629499534213120 / 2 ^ 51) = of_int (- 8796093022208000) / 2 ^ 46"
    unfolding fmul_def by (rule fl_near) simp_all
  have c: "fsub (of_int (- 8796093022208000) / 2 ^ 46) (- 50) = of_int (- 5277655813324800) / 2 ^ 46"
    unfolding fsub_def by (rule fl_near) simp_all
  have d: "fdiv (of_int (- 5277655813324800) / 2 ^ 46) (- 50) = of_int 6755399441055744 / 2 ^ 52"
    unfolding fdiv_def by (rule fl_near) simp_all
  have "\<exists>row. exec_paper_f64 (default_f64\<lparr>spacing := 1.5\<rparr>) Buy q (- 50) REGULAR = Inr row
          \<and> exit_px row = fmul (- 50) (fadd 1 (spacing (default_f64\<lparr>spacing := 1.5\<rparr>)))
          \<and> gross_pct row
              = fdiv (fsub (fmul (- 50) (fadd 1 (spacing (default_f64\<lparr>spacing := 1.5\<rparr>)))) (- 50)) (- 50)"
    by (simp add: exec_paper_f64_def Let_def)
  then show ?thesis
    unfolding sp a b c d by simp
qed

lemma exit_above_entry:
  assumes "0 < px" "fl px = px" "0 \<le> s"
  shows "px \<le> fmul px (fadd 1 s)"
proof -
  have "fl 1 \<le> fl (1 + s)" using assms(3) by (intro fl_mono) simp
  then have "1 \<le> fadd 1 s" by (simp add: fl_one fadd_def)
  then have "px * 1 \<le> px * fadd 1 s" using assms(1) by (intro mult_left_mono) simp_all
  then have "fl px \<le> fl (px * fadd 1 s)" by (intro fl_mono) simp
  then show ?thesis by (simp add: assms(2) fmul_def)
qed

lemma exit_below_entry:
  assumes "0 < px" "fl px = px" "0 \<le> s"
  shows "fmul px (fsub 1 s) \<le> px"
proof -
  have "fl (1 - s) \<le> fl 1" using assms(3) by (intro fl_mono) simp
  then have "fsub 1 s \<le> 1" by (simp add: fl_one fsub_def)
  then have "px * fsub 1 s \<le> px * 1" using assms(1) by (intro mult_left_mono) simp_all
  then have "fl (px * fsub 1 s) \<le> fl px" by (intro fl_mono) simp
  then show ?thesis by (simp add: assms(2) fmul_def)
qed

text \<open>
  C7, as stated: gross is |exit - p| / p, and the LUNCHBOX buy at 100 with s = 0.005 exits
  at 100.5. At the entry price -50, which the planner puts out for price 100 and spacing
  1.5, the fill has gross 1.5 where |exit - p| / p is -1.5; and the LUNCHBOX buy at 100
  exits at 7072058789855231 / \<open>2\<^sup>4\<^sup>6\<close> (100.49999999999999), below 100.5.
\<close>

theorem fill_formula_counterexample:
  "\<not> isl (exec_paper_f64 (default_f64\<lparr>spacing := 1.5\<rparr>) Buy 1 (- 50) REGULAR)
   \<and> gross_pct (projr (exec_paper_f64 (default_f64\<lparr>spacing := 1.5\<rparr>) Buy 1 (- 50) REGULAR)) = 3 / 2
   \<and> \<bar>exit_px (projr (exec_paper_f64 (default_f64\<lparr>spacing := 1.5\<rparr>) Buy 1 (- 50) REGULAR)) - (- 50)\<bar>
        / (- 50) = - (3 / 2)
   \<and> \<not> isl (exec_paper_f64 default_f64 Buy 1 100 LUNCHBOX)
   \<and> exit_px (projr (exec_paper_f64 default_f64 Buy 1 100 LUNCHBOX)) = 7072058789855231 / 2 ^ 46
   \<and> exit_px (projr (exec_paper_f64 default_f64 Buy 1 100 LUNCHBOX)) < 1005 / 10"
proof -
  obtain r1 where r1: "exec_paper_f64 (default_f64\<lparr>spacing := 1.5\<rparr>) Buy 1 (- 50) REGULAR = Inr r1"
    "exit_px r1 = - 125" "gross_pct r1 = 3 / 2"
    using fill_at_minus_50[of 1] by blast
  obtain r2 where r2: "exec_paper_f64 default_f64 Buy 1 100 LUNCHBOX = Inr r2"
    "exit_px r2 = 7072058789855231 / 2 ^ 46"
    using fill_example[of 1] by blast
  show ?thesis
    unfolding r1(1) r2(1) by (simp add: r1 r2)
qed

text \<open>
  C7, amended: in binary64, each operation rounded, for a float entry price \<open>p\<close> above zero
  and a spacing \<open>s\<close> that is not negative, the fill of a buy is a LONG that exits at
  p (1 + s), the fill of a sell a SHORT that exits at p (1 - s), with 1.5 s for s exactly
  when the tag is AFTERBURNER; gross is |exit - p| / p, net is gross - (2 m + 0.0002), and
  pnl is q (exit - p) - q p m - q exit m for a long and q (p - exit) - q p m - q exit m
  for a short. The LUNCHBOX buy at 100 with the floats 0.005 and 0.001 for s and m has the
  exit 7072058789855231 / \<open>2\<^sup>4\<^sup>6\<close> (100.49999999999999), the gross
  5764607523034071 / \<open>2\<^sup>6\<^sup>0\<close> (0.004999999999999858) and the net 6456360425798015 / \<open>2\<^sup>6\<^sup>1\<close>
  (0.0027999999999998577).
\<close>

theorem exec_paper_f64_formulas:
  fixes b :: bot and sd :: side and q px :: real and tag :: regime_tag
  assumes "0 < px" and "fl px = px" and "0 \<le> spacing b"
  defines "s \<equiv> (if tag = AFTERBURNER then fmul (spacing b) 1.5 else spacing b)"
  defines "m \<equiv> maker (fees b)"
  shows "(\<exists>row. exec_paper_f64 b sd q px tag = Inr row
           \<and> bot_tag row = tag \<and> qty row = q \<and> entry_px row = px
           \<and> pos row = (if sd = Buy then LONG else SHORT)
           \<and> exit_px row = (if sd = Buy then fmul px (fadd 1 s) else fmul px (fsub 1 s))
           \<and> gross_pct row = fdiv (fl \<bar>exit_px row - px\<bar>) px
           \<and> net_pct row = fsub (gross_pct row) (fadd (fmul m 2) (fl 0.0002))
           \<and> pnl_usd row
               = (if sd = Buy
                  then fsub (fsub (fmul q (fsub (exit_px row) px)) (fmul (fmul q px) m))
                            (fmul (fmul q (exit_px row)) m)
                  else fsub (fsub (fmul q (fsub px (exit_px row))) (fmul (fmul q px) m))
                            (fmul (fmul q (exit_px row)) m)))
         \<and> (\<exists>row. exec_paper_f64 default_f64 Buy q 100 LUNCHBOX = Inr row
               \<and> exit_px row = 7072058789855231 / 2 ^ 46
               \<and> gross_pct row = 5764607523034071 / 2 ^ 60
               \<and> net_pct row = 6456360425798015 / 2 ^ 61)"
proof -
  have s0: "0 \<le> s"
    using assms(3) by (simp add: s_def fmul_def fl_nonneg)
  have tp: "(if tag \<noteq> AFTERBURNER then spacing b else fmul (spacing b) 1.5) = s"
    by (simp add: s_def)
  have up: "fl \<bar>fmul px (fadd 1 s) - px\<bar> = fsub (fmul px (fadd 1 s)) px"
    using exit_above_entry[OF assms(1,2) s0] by (simp add: fsub_def)
  have dn: "fl \<bar>fmul px (fsub 1 s) - px\<bar> = fsub px (fmul px (fsub 1 s))"
    using exit_below_entry[OF assms(1,2) s0] by (simp add: fsub_def abs_minus_commute)
  have "\<exists>row. exec_paper_f64 b sd q px tag = Inr row
           \<and> bot_tag row = tag \<and> qty row = q \<and> entry_px row = px
           \<and> pos row = (if sd = Buy then LONG else SHORT)
           \<and> exit_px row = (if sd = Buy then fmul px (fadd 1 s) else fmul px (fsub 1 s))
           \<and> gross_pct row = fdiv (fl \<bar>exit_px row - px\<bar>) px
           \<and> net_pct row = fsub (gross_pct row) (fadd (fmul m 2) (fl 0.0002))
           \<and> pnl_usd row
               = (if sd = Buy
                  then fsub (fsub (fmul q (fsub (exit_px row) px)) (fmul (fmul q px) m))
                            (fmul (fmul q (exit_px row)) m)
                  else fsub (fsub (fmul q (fsub px (exit_px row))) (fmul (fmul q px) m))
                            (fmul (fmul q (exit_px row)) m))"
  proof (cases "sd = Buy")
    case True
    then show ?thesis
      unfolding exec_paper_f64_def Let_def tp m_def[symmetric]
      using assms(1) up by simp
  next
    case False
    then show ?thesis
      unfolding exec_paper_f64_def Let_def tp m_def[symmetric]
      using assms(1) dn by simp
  qed
  with fill_example[of q] show ?thesis by blast
qed

theorem exec_paper_f64_formulas_witness:
  "0 < (100 :: real) \<and> fl 100 = 100 \<and> 0 \<le> spacing default_f64
   \<and> (\<exists>row. exec_paper_f64 default_f64 Buy 1 100 LUNCHBOX = Inr row
         \<and> pos row = LONG \<and> exit_px row = 7072058789855231 / 2 ^ 46
         \<and> gross_pct row = fdiv (fl \<bar>7072058789855231 / 2 ^ 46 - 100\<bar>) 100)"
proof -
  have sp: "0 \<le> spacing default_f64"
    unfolding default_f64_fields lit_005 by simp
  have h: "0 < (100 :: real)" by simp
  from exec_paper_f64_formulas[OF h lit_100 sp, of Buy 1 LUNCHBOX]
  obtain row where r: "exec_paper_f64 default_f64 Buy 1 100 LUNCHBOX = Inr row"
    and p: "pos row = LONG"
    and g: "gross_pct row = fdiv (fl \<bar>exit_px row - 100\<bar>) 100"
    by auto
  obtain row' where r': "exec_paper_f64 default_f64 Buy 1 100 LUNCHBOX = Inr row'"
    and e: "exit_px row' = 7072058789855231 / 2 ^ 46"
    using exec_paper_f64_formulas[OF h lit_100 sp, of Buy 1 LUNCHBOX] by blast
  from r r' have "row' = row" by simp
  with e have e': "exit_px row = 7072058789855231 / 2 ^ 46" by simp
  from g have "gross_pct row = fdiv (fl \<bar>7072058789855231 / 2 ^ 46 - 100\<bar>) 100"
    unfolding e' .
  with r p e' h lit_100 sp show ?thesis by blast
qed

end
